(* ===== verification/Go_Prelude.thy ===== *)
theory Go_Prelude
  imports Main "HOL-Library.Word" "HOL-Library.AList"
begin

unbundle bit_operations_syntax

text \<open>
  Shared vocabulary of the development: Go's machine integers and byte slices, the big-endian
  accessors of package \<^verbatim>\<open>encoding/binary\<close>, slice expressions, in-place buffer writes, Go errors,
  and association lists standing for Go maps.  Lemmas that the components share are collected in
  \<open>wire_simps\<close> (byte layout) and \<open>amap_simps\<close> (maps).
\<close>

named_theorems wire_simps \<open>layout of byte buffers\<close>
named_theorems amap_simps \<open>association lists as Go maps\<close>

section \<open>Machine integers and byte slices\<close>

type_synonym byte = "8 word"
type_synonym bytes = "byte list"
type_synonym u16 = "16 word"
type_synonym u32 = "32 word"
type_synonym u64 = "64 word"

text \<open>A slice expression \<^verbatim>\<open>xs[i:j]\<close>; the code under study always checks the length first.\<close>

definition go_slice :: "nat \<Rightarrow> nat \<Rightarrow> 'a list \<Rightarrow> 'a list" where
  "go_slice i j xs = take (j - i) (drop i xs)"

text \<open>\<^verbatim>\<open>copy(buf[i:], src)\<close> for a source that fits: the bytes at \<open>i ..\<close> are overwritten.\<close>

definition put_at :: "nat \<Rightarrow> 'a list \<Rightarrow> 'a list \<Rightarrow> 'a list" where
  "put_at i src buf = take i buf @ src @ drop (i + length src) buf"

text \<open>A Go byte array \<^verbatim>\<open>[n]byte\<close> filled by \<^verbatim>\<open>copy\<close> from a shorter or longer slice.\<close>

definition copy_array :: "nat \<Rightarrow> bytes \<Rightarrow> bytes" where
  "copy_array n src = take n src @ replicate (n - length src) 0"

section \<open>Big-endian integers (package encoding/binary)\<close>

fun be_put :: "nat \<Rightarrow> nat \<Rightarrow> bytes" where
  "be_put 0 v = []"
| "be_put (Suc n) v = be_put n (v div 256) @ [of_nat (v mod 256)]"

definition be_get :: "bytes \<Rightarrow> nat" where
  "be_get bs = foldl (\<lambda>a b. a * 256 + unat b) 0 bs"

definition PutUint16 :: "u16 \<Rightarrow> bytes" where "PutUint16 w = be_put 2 (unat w)"
definition PutUint32 :: "u32 \<Rightarrow> bytes" where "PutUint32 w = be_put 4 (unat w)"
definition PutUint64 :: "u64 \<Rightarrow> bytes" where "PutUint64 w = be_put 8 (unat w)"

definition Uint16 :: "bytes \<Rightarrow> u16" where "Uint16 bs = of_nat (be_get (take 2 bs))"
definition Uint32 :: "bytes \<Rightarrow> u32" where "Uint32 bs = of_nat (be_get (take 4 bs))"
definition Uint64 :: "bytes \<Rightarrow> u64" where "Uint64 bs = of_nat (be_get (take 8 bs))"

section \<open>Errors\<close>

text \<open>
  An \<^verbatim>\<open>error\<close> value.  \<open>ErrDedupSuppressed\<close> is the one sentinel the program tests with
  \<^verbatim>\<open>errors.Is\<close>; \<open>IOErr\<close> is what a socket or a backend returns, \<open>Errorf\<close> what \<^verbatim>\<open>fmt.Errorf\<close> builds.
\<close>

datatype go_error = ErrDedupSuppressed | IOErr string | Errorf string

section \<open>Maps\<close>

text \<open>
  A Go map is an association list with distinct keys: its length is Go's \<^verbatim>\<open>len\<close>, and the order of
  the list is one of the iteration orders Go may choose.
\<close>

type_synonym ('k, 'v) amap = "('k \<times> 'v) list"

definition amap_ok :: "('k, 'v) amap \<Rightarrow> bool" where
  "amap_ok m \<longleftrightarrow> distinct (map fst m)"

definition amap_get :: "('k, 'v) amap \<Rightarrow> 'k \<Rightarrow> 'v option" where
  "amap_get m k = map_of m k"

definition amap_put :: "'k \<Rightarrow> 'v \<Rightarrow> ('k, 'v) amap \<Rightarrow> ('k, 'v) amap" where
  "amap_put k v m = AList.update k v m"

section \<open>Lemmas: big-endian integers\<close>

lemma length_be_put [simp]: "length (be_put n v) = n"
  by (induction n v rule: be_put.induct) auto

lemma be_get_Nil [simp]: "be_get [] = 0"
  by (simp add: be_get_def)

lemma be_get_snoc [simp]: "be_get (bs @ [b]) = be_get bs * 256 + unat b"
  by (simp add: be_get_def)

lemma unat_byte_of_nat_mod [simp]: "unat (of_nat (v mod 256) :: byte) = v mod 256"
  by (simp add: unat_of_nat)

lemma be_get_put: "be_get (be_put n v) = v mod 256 ^ n"
proof (induction n v rule: be_put.induct)
  case (1 v)
  then show ?case by simp
next
  case (2 n v)
  then show ?case
    by (simp add: mod_mult2_eq [of v 256 "256 ^ n"] mult.commute add.commute)
qed

lemma be_put_get: "be_put (length bs) (be_get bs) = bs"
proof (induction bs rule: rev_induct)
  case Nil
  then show ?case by simp
next
  case (snoc b bs)
  have lt: "unat b < 256"
    using unsigned_less [of b] by simp
  have "of_nat (unat b mod 256) = b"
    using lt by simp
  with snoc lt show ?case by simp
qed

lemma be_get_less: "be_get bs < 256 ^ length bs"
proof -
  have "be_get bs = be_get (be_put (length bs) (be_get bs))"
    by (simp add: be_put_get)
  also have "\<dots> < 256 ^ length bs"
    by (simp add: be_get_put)
  finally show ?thesis .
qed

lemma length_PutUint [simp, wire_simps]:
  "length (PutUint16 a) = 2" "length (PutUint32 b) = 4" "length (PutUint64 c) = 8"
  by (simp_all add: PutUint16_def PutUint32_def PutUint64_def)

lemma unat_pow2_less: "unat (w :: 'a::len word) < 2 ^ LENGTH('a)"
  by (rule unsigned_less)

lemma Uint16_PutUint16 [simp, wire_simps]: "Uint16 (PutUint16 w @ r) = w"
  using unat_pow2_less [of w] by (simp add: Uint16_def PutUint16_def be_get_put)

lemma Uint32_PutUint32 [simp, wire_simps]: "Uint32 (PutUint32 w @ r) = w"
  using unat_pow2_less [of w] by (simp add: Uint32_def PutUint32_def be_get_put)

lemma Uint64_PutUint64 [simp, wire_simps]: "Uint64 (PutUint64 w @ r) = w"
  using unat_pow2_less [of w] by (simp add: Uint64_def PutUint64_def be_get_put)

lemma PutUint64_Uint64: "length bs = 8 \<Longrightarrow> PutUint64 (Uint64 bs) = bs"
  using be_get_less [of bs] be_put_get [of bs]
  by (simp add: Uint64_def PutUint64_def unat_of_nat)

lemma PutUint64_inject [simp]: "PutUint64 a = PutUint64 b \<longleftrightarrow> a = b"
  by (metis Uint64_PutUint64 append_Nil2)

section \<open>Lemmas: the shift form of the accessors\<close>

text \<open>
  The bodies that package \<^verbatim>\<open>encoding/binary\<close> itself has: bytes by shifting and truncating, integers by
  taking in one byte after the other.  They are the code equations, so that evaluation stays on words.
\<close>

lemma byte_of_mod [simp]: "(of_nat (n mod 256) :: byte) = of_nat n"
  by (rule word_unat_eq_iff [THEN iffD2]) (simp add: unat_of_nat)

lemma byte_of_div: "(of_nat (unat (w :: 'a::len word) div 2 ^ k) :: byte) = ucast (drop_bit k w)"
proof -
  have "unat w div 2 ^ k = unat (drop_bit k w)"
    using take_bit_nat_eq_self [OF unat_pow2_less [of w]]
    by (simp add: unsigned_drop_bit_eq flip: drop_bit_eq_div)
  then show ?thesis by simp
qed

lemma be_put_numeral: "be_put (numeral k) v = be_put (pred_numeral k) (v div 256) @ [of_nat v]"
  by (simp only: numeral_eq_Suc [of k] be_put.simps byte_of_mod)

lemmas byte_of_div_at = byte_of_div [of _ 8] byte_of_div [of _ 16] byte_of_div [of _ 24] byte_of_div [of _ 32]
  byte_of_div [of _ 40] byte_of_div [of _ 48] byte_of_div [of _ 56]

lemma PutUint16_shift [code]: "PutUint16 w = [ucast (drop_bit 8 w), ucast w]"
  using byte_of_div_at [of w] by (simp add: PutUint16_def be_put_numeral)

lemma PutUint32_shift [code]:
  "PutUint32 w = [ucast (drop_bit 24 w), ucast (drop_bit 16 w), ucast (drop_bit 8 w), ucast w]"
  using byte_of_div_at [of w] by (simp add: PutUint32_def be_put_numeral flip: div_mult2_eq)

lemma PutUint64_shift [code]:
  "PutUint64 w = [ucast (drop_bit 56 w), ucast (drop_bit 48 w), ucast (drop_bit 40 w), ucast (drop_bit 32 w),
     ucast (drop_bit 24 w), ucast (drop_bit 16 w), ucast (drop_bit 8 w), ucast w]"
  using byte_of_div_at [of w] by (simp add: PutUint64_def be_put_numeral flip: div_mult2_eq)

lemma be_get_word: "(of_nat (be_get bs) :: 'a::len word) = foldl (\<lambda>a b. a * 256 + ucast b) 0 bs"
  by (induction bs rule: rev_induct) simp_all

lemma Uint_shift [code]:
  "Uint16 bs = foldl (\<lambda>a b. a * 256 + ucast b) 0 (take 2 bs)"
  "Uint32 bs = foldl (\<lambda>a b. a * 256 + ucast b) 0 (take 4 bs)"
  "Uint64 bs = foldl (\<lambda>a b. a * 256 + ucast b) 0 (take 8 bs)"
  by (simp_all add: Uint16_def Uint32_def Uint64_def be_get_word)
section \<open>Lemmas: slices and buffers\<close>

lemma length_go_slice [simp]: "length (go_slice i j xs) = min (j - i) (length xs - i)"
  by (simp add: go_slice_def)

lemma go_slice_append [wire_simps]:
  "length a = i \<Longrightarrow> j = i + length b \<Longrightarrow> go_slice i j (a @ b @ c) = b"
  by (simp add: go_slice_def)

lemma go_slice_split: "i \<le> k \<Longrightarrow> k \<le> j \<Longrightarrow> go_slice i k xs @ go_slice k j xs = go_slice i j xs"
proof -
  assume "i \<le> k" "k \<le> j"
  then have "j - i = (k - i) + (j - k)" and "drop k xs = drop (k - i) (drop i xs)"
    by simp_all
  then show ?thesis by (simp add: go_slice_def take_add)
qed

lemma length_put_at [simp]: "i + length src \<le> length buf \<Longrightarrow> length (put_at i src buf) = length buf"
  by (simp add: put_at_def)

lemma put_at_zeros [wire_simps]:
  "length a = i \<Longrightarrow> length src \<le> n \<Longrightarrow>
   put_at i src (a @ replicate n 0) = (a @ src) @ replicate (n - length src) 0"
  by (simp add: put_at_def)

lemma put_at_zeros_0 [wire_simps]:
  "length src \<le> n \<Longrightarrow> put_at 0 src (replicate n 0) = src @ replicate (n - length src) 0"
  by (simp add: put_at_def)

lemma length_copy_array [simp]: "length (copy_array n src) = n"
  by (simp add: copy_array_def)

lemma copy_array_exact [simp]: "length src = n \<Longrightarrow> copy_array n src = src"
  by (simp add: copy_array_def)

section \<open>Lemmas: maps\<close>

lemma amap_get_Nil [simp, amap_simps]: "amap_get [] k = None"
  by (simp add: amap_get_def)

lemma amap_get_put [simp, amap_simps]:
  "amap_get (amap_put k v m) k' = (if k' = k then Some v else amap_get m k')"
  by (simp add: amap_get_def amap_put_def update_conv')

lemma amap_ok_Nil [simp, amap_simps]: "amap_ok []"
  by (simp add: amap_ok_def)

lemma amap_ok_put [simp, amap_simps]: "amap_ok m \<Longrightarrow> amap_ok (amap_put k v m)"
  by (simp add: amap_ok_def amap_put_def distinct_update)

lemma amap_ok_filter [simp, amap_simps]: "amap_ok m \<Longrightarrow> amap_ok (filter P m)"
  by (simp add: amap_ok_def distinct_map_filter)

lemma amap_get_filter [amap_simps]:
  "amap_ok m \<Longrightarrow> amap_get (filter (\<lambda>(k, v). P v) m) k =
     (case amap_get m k of None \<Rightarrow> None | Some v \<Rightarrow> if P v then Some v else None)"
  by (induction m) (auto simp: amap_ok_def amap_get_def image_iff split: option.splits dest: map_of_SomeD)

lemma amap_get_in_set: "amap_get m k = Some v \<Longrightarrow> (k, v) \<in> set m"
  by (simp add: amap_get_def map_of_SomeD)

lemma amap_in_set_get: "amap_ok m \<Longrightarrow> (k, v) \<in> set m \<Longrightarrow> amap_get m k = Some v"
  by (simp add: amap_ok_def amap_get_def)

lemma length_amap_put:
  "length (amap_put k v m) = (if amap_get m k = None then Suc (length m) else length m)"
  by (induction m) (auto simp: amap_put_def amap_get_def)

end
