(* ===== verification/Metrics_Recorder.thy ===== *)
theory Metrics_Recorder
  imports Go_Prelude
begin

text \<open>
  The recorder of \<^verbatim>\<open>src/metrics/metrics.go\<close>: its counters (one per instrument and label value), the
  copy-on-write table of per-source measurement options, and the readiness state behind \<^verbatim>\<open>/readyz\<close>.  The
  OpenTelemetry and Prometheus plumbing that exports the counters is not modelled.
  A nil recorder is \<open>None\<close>: \<^verbatim>\<open>if s.rec != nil { s.rec.X() }\<close> is \<open>map_option rec_X\<close>.
\<close>

section \<open>Instruments\<close>

datatype metric =
    cacheHits | cacheMisses | cacheErrors
  | nackRequests | retransmits | unicastRetransmits | retransmitDedup
  | responsesSent string | responseSendErrors string
  | proxyRequests | proxyRecovered | proxyFailed string | proxyInflightDedup | proxyQueueDropped
  | rateLimitDrops string
  | framesReceived | teeDatagrams string | framesCached | cacheStored string | framesDropped string
  | beaconAdvertsSent

text \<open>
  \<open>cachedBySource\<close> is the atomic pointer to the table from source to measurement option; an option
  is represented by the label it carries.  \<open>series\<close> are the per-source series that exist.
\<close>

record Recorder =
  counts :: "metric \<Rightarrow> nat"
  cacheSize :: int
  cachedBySource :: "(string, string) amap option"
  series :: "string list"
  numWorkers :: int
  readyCount :: int
  draining :: bool

definition new_Recorder :: "int \<Rightarrow> Recorder" where
  "new_Recorder n = \<lparr>counts = (\<lambda>_. 0), cacheSize = 0, cachedBySource = None, series = [],
     numWorkers = n, readyCount = 0, draining = False\<rparr>"

definition add_metric :: "metric \<Rightarrow> nat \<Rightarrow> Recorder \<Rightarrow> Recorder" where
  "add_metric m n r = r\<lparr>counts := (counts r)(m := counts r m + n)\<rparr>"

definition rec_CacheHit :: "Recorder \<Rightarrow> Recorder" where "rec_CacheHit = add_metric cacheHits 1"
definition rec_CacheMiss :: "Recorder \<Rightarrow> Recorder" where "rec_CacheMiss = add_metric cacheMisses 1"
definition rec_CacheSize :: "int \<Rightarrow> Recorder \<Rightarrow> Recorder" where "rec_CacheSize sz r = r\<lparr>cacheSize := sz\<rparr>"
definition rec_CacheError :: "Recorder \<Rightarrow> Recorder" where "rec_CacheError = add_metric cacheErrors 1"
definition rec_NACKRequest :: "Recorder \<Rightarrow> Recorder" where "rec_NACKRequest = add_metric nackRequests 1"
definition rec_Retransmit :: "Recorder \<Rightarrow> Recorder" where "rec_Retransmit = add_metric retransmits 1"
definition rec_UnicastRetransmit :: "Recorder \<Rightarrow> Recorder" where "rec_UnicastRetransmit = add_metric unicastRetransmits 1"
definition rec_RetransmitDedup :: "Recorder \<Rightarrow> Recorder" where "rec_RetransmitDedup = add_metric retransmitDedup 1"
definition rec_ProxyRequest :: "Recorder \<Rightarrow> Recorder" where "rec_ProxyRequest = add_metric proxyRequests 1"
definition rec_ProxyRecovered :: "Recorder \<Rightarrow> Recorder" where "rec_ProxyRecovered = add_metric proxyRecovered 1"
definition rec_ProxyFailed :: "string \<Rightarrow> Recorder \<Rightarrow> Recorder" where "rec_ProxyFailed reason = add_metric (proxyFailed reason) 1"
definition rec_ProxyInflightDedup :: "Recorder \<Rightarrow> Recorder" where "rec_ProxyInflightDedup = add_metric proxyInflightDedup 1"
definition rec_ProxyQueueDropped :: "Recorder \<Rightarrow> Recorder" where "rec_ProxyQueueDropped = add_metric proxyQueueDropped 1"
definition rec_ResponseSent :: "string \<Rightarrow> Recorder \<Rightarrow> Recorder" where "rec_ResponseSent typ = add_metric (responsesSent typ) 1"
definition rec_ResponseSendError :: "string \<Rightarrow> Recorder \<Rightarrow> Recorder" where "rec_ResponseSendError typ = add_metric (responseSendErrors typ) 1"
definition rec_RateLimitDrop :: "string \<Rightarrow> Recorder \<Rightarrow> Recorder" where "rec_RateLimitDrop level = add_metric (rateLimitDrops level) 1"
definition rec_FrameReceived :: "Recorder \<Rightarrow> Recorder" where "rec_FrameReceived = add_metric framesReceived 1"
definition rec_TeeDatagram :: "string \<Rightarrow> Recorder \<Rightarrow> Recorder" where "rec_TeeDatagram form = add_metric (teeDatagrams form) 1"
definition rec_FrameDropped :: "string \<Rightarrow> Recorder \<Rightarrow> Recorder" where "rec_FrameDropped reason = add_metric (framesDropped reason) 1"
definition rec_BeaconAdvertSent :: "Recorder \<Rightarrow> Recorder" where "rec_BeaconAdvertSent = add_metric beaconAdvertsSent 1"

section \<open>Per-source series\<close>

text \<open>
  \<^verbatim>\<open>sourceOption\<close>: a lock-free read of the table, then under the lock a second read and a copy of the
  table with the new entry.
\<close>

definition sourceOption :: "string \<Rightarrow> Recorder \<Rightarrow> string \<times> Recorder" where
  "sourceOption source r =
    (case Option.bind (cachedBySource r) (\<lambda>m. amap_get m source) of
       Some opt \<Rightarrow> (opt, r)
     | None \<Rightarrow>
        (let old = cachedBySource r in
         case Option.bind old (\<lambda>m. amap_get m source) of
           Some opt \<Rightarrow> (opt, r)
         | None \<Rightarrow> (source, r\<lparr>cachedBySource := Some (amap_put source source (case old of None \<Rightarrow> [] | Some m \<Rightarrow> m))\<rparr>)))"

definition add_series :: "string \<Rightarrow> nat \<Rightarrow> Recorder \<Rightarrow> Recorder" where
  "add_series source n r = (add_metric (cacheStored source) n r)\<lparr>series := List.insert source (series r)\<rparr>"

definition rec_FrameCached :: "string \<Rightarrow> Recorder \<Rightarrow> Recorder" where
  "rec_FrameCached source r =
    (let r1 = add_metric framesCached 1 r; (opt, r2) = sourceOption source r1 in add_series opt 1 r2)"

definition rec_PreCreateSources :: "string list \<Rightarrow> Recorder \<Rightarrow> Recorder" where
  "rec_PreCreateSources sources r = fold (\<lambda>s. add_series s 0) sources r"

section \<open>Readiness\<close>

definition rec_SetWorkers :: "int \<Rightarrow> Recorder \<Rightarrow> Recorder" where "rec_SetWorkers n r = r\<lparr>numWorkers := n\<rparr>"
definition rec_WorkerReady :: "Recorder \<Rightarrow> Recorder" where "rec_WorkerReady r = r\<lparr>readyCount := readyCount r + 1\<rparr>"
definition rec_WorkerDone :: "Recorder \<Rightarrow> Recorder" where "rec_WorkerDone r = r\<lparr>readyCount := readyCount r - 1\<rparr>"
definition rec_SetDraining :: "Recorder \<Rightarrow> Recorder" where "rec_SetDraining r = r\<lparr>draining := True\<rparr>"

record readyz =
  rz_code :: int
  rz_status :: string
  rz_ready :: int
  rz_total :: int

definition handleReadyz :: "Recorder \<Rightarrow> readyz" where
  "handleReadyz r =
    (let ready = readyCount r; total = numWorkers r in
     if draining r then \<lparr>rz_code = 503, rz_status = ''draining'', rz_ready = ready, rz_total = total\<rparr>
     else if total \<le> ready \<and> 0 < total
       then \<lparr>rz_code = 200, rz_status = ''ready'', rz_ready = ready, rz_total = total\<rparr>
     else \<lparr>rz_code = 503, rz_status = ''starting'', rz_ready = ready, rz_total = total\<rparr>)"

section \<open>Lemmas\<close>

lemmas recorder_defs =
  rec_CacheHit_def rec_CacheMiss_def rec_CacheError_def rec_NACKRequest_def rec_Retransmit_def
  rec_UnicastRetransmit_def rec_RetransmitDedup_def rec_ProxyRequest_def rec_ProxyRecovered_def
  rec_ProxyFailed_def rec_ProxyInflightDedup_def rec_ProxyQueueDropped_def rec_ResponseSent_def
  rec_ResponseSendError_def rec_RateLimitDrop_def rec_FrameReceived_def rec_TeeDatagram_def
  rec_FrameDropped_def rec_BeaconAdvertSent_def

lemma counts_add_metric [simp]: "counts (add_metric m n r) m' = counts r m' + (if m' = m then n else 0)"
  by (simp add: add_metric_def)

text \<open>The memo table never changes the label under which a frame is counted.\<close>

definition source_table_ok :: "Recorder \<Rightarrow> bool" where
  "source_table_ok r \<longleftrightarrow> (\<forall>m. cachedBySource r = Some m \<longrightarrow> (\<forall>s opt. amap_get m s = Some opt \<longrightarrow> opt = s))"

lemma sourceOption_label:
  assumes "source_table_ok r" and "sourceOption source r = (opt, r')"
  shows "opt = source \<and> source_table_ok r' \<and> counts r' = counts r \<and> series r' = series r"
  using assms
  by (cases "cachedBySource r")
    (auto simp: sourceOption_def source_table_ok_def Let_def split: option.splits if_splits)

lemma rec_FrameCached_counts:
  assumes "source_table_ok r"
  shows "counts (rec_FrameCached source r) m =
    counts r m + (if m = framesCached \<or> m = cacheStored source then 1 else 0)"
    and "source_table_ok (rec_FrameCached source r)"
proof -
  obtain opt r2 where so: "sourceOption source (add_metric framesCached 1 r) = (opt, r2)" by force
  have "source_table_ok (add_metric framesCached 1 r)"
    using assms by (simp add: source_table_ok_def add_metric_def)
  from sourceOption_label [OF this so] have
    "opt = source" "source_table_ok r2" "counts r2 = counts (add_metric framesCached 1 r)" by auto
  with so show "counts (rec_FrameCached source r) m =
    counts r m + (if m = framesCached \<or> m = cacheStored source then 1 else 0)"
    and "source_table_ok (rec_FrameCached source r)"
    by (auto simp: rec_FrameCached_def add_series_def source_table_ok_def add_metric_def)
qed

end
