(* ===== verification/Net_Addr.thy ===== *)
theory Net_Addr
  imports Go_Prelude
begin

text \<open>
  Addresses of packages \<^verbatim>\<open>net\<close> and \<^verbatim>\<open>net/netip\<close> as the program uses them: \<^verbatim>\<open>net.IP\<close> as a byte slice,
  \<^verbatim>\<open>netip.Addr\<close> as a datatype, their conversions and their textual forms (the rate limiter keys its
  first tier by \<^verbatim>\<open>net.IP.String\<close>, the ingress labels counters by \<^verbatim>\<open>netip.Addr.String\<close>).
\<close>

section \<open>Addresses\<close>

record UDPAddr =
  uIP :: bytes
  uPort :: int

datatype Addr = InvalidAddr | Addr4 bytes | Addr6 bytes

definition v4InV6Prefix :: bytes where
  "v4InV6Prefix = replicate 10 0 @ [0xFF, 0xFF]"

definition IPv6unspecified :: bytes where
  "IPv6unspecified = replicate 16 0"

definition To4 :: "bytes \<Rightarrow> bytes option" where
  "To4 ip = (if length ip = 4 then Some ip
             else if length ip = 16 \<and> take 12 ip = v4InV6Prefix then Some (drop 12 ip)
             else None)"

definition To16 :: "bytes \<Rightarrow> bytes option" where
  "To16 ip = (if length ip = 4 then Some (v4InV6Prefix @ ip)
              else if length ip = 16 then Some ip
              else None)"

definition AddrFromSlice :: "bytes \<Rightarrow> Addr" where
  "AddrFromSlice ip = (if length ip = 4 then Addr4 ip
                       else if length ip = 16 then Addr6 ip
                       else InvalidAddr)"

fun As16 :: "Addr \<Rightarrow> bytes" where
  "As16 InvalidAddr = replicate 16 0"
| "As16 (Addr4 b) = v4InV6Prefix @ b"
| "As16 (Addr6 b) = b"

section \<open>Textual forms\<close>

definition hexdigit :: "nat \<Rightarrow> char" where
  "hexdigit n = ''0123456789abcdef'' ! n"

fun digits_in :: "nat \<Rightarrow> nat \<Rightarrow> nat \<Rightarrow> string" where
  "digits_in 0 base n = []"
| "digits_in (Suc fuel) base n =
     (if n < base then [hexdigit n] else digits_in fuel base (n div base) @ [hexdigit (n mod base)])"

definition dec_byte :: "byte \<Rightarrow> string" where
  "dec_byte b = digits_in 3 10 (unat b)"

definition hex_word :: "u16 \<Rightarrow> string" where
  "hex_word w = digits_in 4 16 (unat w)"

definition hex_byte :: "byte \<Rightarrow> string" where
  "hex_byte b = [hexdigit (unat b div 16), hexdigit (unat b mod 16)]"

definition string4 :: "bytes \<Rightarrow> string" where
  "string4 b = dec_byte (b ! 0) @ ''.'' @ dec_byte (b ! 1) @ ''.'' @ dec_byte (b ! 2) @ ''.'' @ dec_byte (b ! 3)"

definition groups6 :: "bytes \<Rightarrow> u16 list" where
  "groups6 b = map (\<lambda>i. Uint16 (go_slice (2 * i) (2 * i + 2) b)) [0..<8]"

definition zero_run :: "u16 list \<Rightarrow> nat \<times> nat" where
  "zero_run ws = foldl (\<lambda>(s, e) i. let l = length (takeWhile (\<lambda>w. w = 0) (drop i ws))
                                    in if 2 \<le> l \<and> e - s < l then (i, i + l) else (s, e))
                       (255, 255) [0..<8]"

definition string6 :: "bytes \<Rightarrow> string" where
  "string6 b = (let ws = groups6 b; (s, e) = zero_run ws in
     concat (map (\<lambda>i. if s \<le> i \<and> i < e then (if i = s then ''::'' else [])
                      else (if 0 < i \<and> i \<noteq> e then '':'' else []) @ hex_word (ws ! i)) [0..<8]))"

fun Addr_String :: "Addr \<Rightarrow> string" where
  "Addr_String InvalidAddr = ''invalid IP''"
| "Addr_String (Addr4 b) = string4 b"
| "Addr_String (Addr6 b) = (if take 12 b = v4InV6Prefix then ''::ffff:'' @ string4 (drop 12 b) else string6 b)"

definition IP_String :: "bytes \<Rightarrow> string" where
  "IP_String ip = (if ip = [] then ''<nil>''
                   else if length ip \<noteq> 4 \<and> length ip \<noteq> 16 then CHR ''?'' # concat (map hex_byte ip)
                   else case To4 ip of Some p4 \<Rightarrow> string4 p4 | None \<Rightarrow> Addr_String (Addr6 ip))"

section \<open>Lemmas\<close>

text \<open>The fuel of \<open>digits_in\<close> bounds the digits: three for a byte in decimal, four for 16 bits in hexadecimal, are enough.\<close>

lemma digits_in_enough: "n < base ^ Suc fuel \<Longrightarrow> digits_in (Suc fuel + k) base n = digits_in (Suc fuel) base n"
proof (induction fuel arbitrary: n)
  case (Suc fuel)
  then have "n div base < base ^ Suc fuel" by (intro less_mult_imp_div_less) (simp add: mult.commute)
  with Suc.IH show ?case by simp
qed simp

lemma text_digits_enough: "digits_in (3 + k) 10 (unat (b :: byte)) = dec_byte b" "digits_in (4 + k) 16 (unat (w :: u16)) = hex_word w"
proof -
  have n: "Suc 2 = 3" "Suc 3 = 4" by simp_all
  have "unat b < 10 ^ Suc 2" "unat w < 16 ^ Suc 3" using unsigned_less [of b, where ?'a = nat] unsigned_less [of w, where ?'a = nat] by simp_all
  from this [THEN digits_in_enough [where k = k]]
  show "digits_in (3 + k) 10 (unat b) = dec_byte b" "digits_in (4 + k) 16 (unat w) = hex_word w"
    unfolding dec_byte_def hex_word_def n by blast+
qed

lemma length_v4InV6Prefix [simp]: "length v4InV6Prefix = 12"
  by (simp add: v4InV6Prefix_def)

lemma length_IPv6unspecified [simp]: "length IPv6unspecified = 16"
  by (simp add: IPv6unspecified_def)

lemma To4_mapped [simp]: "length b = 4 \<Longrightarrow> To4 (v4InV6Prefix @ b) = Some b"
  by (simp add: To4_def)

lemma length_As16: "length (As16 (AddrFromSlice ip)) = 16"
  by (simp add: AddrFromSlice_def)

lemma IP_String_mapped:
  assumes "length b = 4"
  shows "IP_String (v4InV6Prefix @ b) = IP_String b"
proof -
  have "v4InV6Prefix \<noteq> []" by (simp add: v4InV6Prefix_def)
  with assms show ?thesis by (auto simp: IP_String_def To4_def)
qed

end
