(* ===== verification/Metrics_Setup.thy ===== *)
theory Metrics_Setup
  imports Metrics_Recorder Net_Addr
begin

text \<open>
  How the recorder is made, served and shut down: \<^verbatim>\<open>New\<close>, \<^verbatim>\<open>Shutdown\<close>, \<^verbatim>\<open>Serve\<close> and \<^verbatim>\<open>handleHealthz\<close> of
  \<^verbatim>\<open>src/metrics/metrics.go\<close> and \<^verbatim>\<open>SetHostInfo\<close> of \<^verbatim>\<open>src/metrics/hostinfo.go\<close>.  The OpenTelemetry and Prometheus packages
  are not part of the repository: whether they grant what is asked of them is a parameter, and so are the two \<^verbatim>\<open>Shutdown\<close> calls.
\<close>

section \<open>Instruments\<close>

text \<open>The instruments in the order \<^verbatim>\<open>New\<close> creates them.\<close>

definition instrument_names :: "string list" where
  "instrument_names =
    [''bre_cache_hits_total'', ''bre_cache_misses_total'', ''bre_cache_size'', ''bre_cache_errors_total'',
     ''bre_nack_requests_total'', ''bre_retransmits_total'', ''bre_unicast_retransmits_total'', ''bre_retransmit_dedup_total'',
     ''bre_proxy_requests_total'', ''bre_proxy_recovered_total'', ''bre_proxy_failed_total'', ''bre_proxy_inflight_dedup_total'',
     ''bre_proxy_queue_dropped_total'', ''bre_responses_sent_total'', ''bre_response_send_errors_total'',
     ''bre_rate_limit_drops_total'', ''bre_frames_received_total'', ''bre_cache_stored_total'', ''bre_frames_cached_total'',
     ''bre_frames_dropped_total'', ''bre_tee_datagrams_total'', ''bre_beacon_adverts_sent_total'']"

text \<open>The instrument a recorder method adds to, and the name of the label it carries.\<close>

fun metric_instrument :: "metric \<Rightarrow> string \<times> (string \<times> string) list" where
  "metric_instrument cacheHits = (''bre_cache_hits_total'', [])"
| "metric_instrument cacheMisses = (''bre_cache_misses_total'', [])"
| "metric_instrument cacheErrors = (''bre_cache_errors_total'', [])"
| "metric_instrument nackRequests = (''bre_nack_requests_total'', [])"
| "metric_instrument retransmits = (''bre_retransmits_total'', [])"
| "metric_instrument unicastRetransmits = (''bre_unicast_retransmits_total'', [])"
| "metric_instrument retransmitDedup = (''bre_retransmit_dedup_total'', [])"
| "metric_instrument (responsesSent typ) = (''bre_responses_sent_total'', [(''type'', typ)])"
| "metric_instrument (responseSendErrors typ) = (''bre_response_send_errors_total'', [(''type'', typ)])"
| "metric_instrument proxyRequests = (''bre_proxy_requests_total'', [])"
| "metric_instrument proxyRecovered = (''bre_proxy_recovered_total'', [])"
| "metric_instrument (proxyFailed reason) = (''bre_proxy_failed_total'', [(''reason'', reason)])"
| "metric_instrument proxyInflightDedup = (''bre_proxy_inflight_dedup_total'', [])"
| "metric_instrument proxyQueueDropped = (''bre_proxy_queue_dropped_total'', [])"
| "metric_instrument (rateLimitDrops level) = (''bre_rate_limit_drops_total'', [(''level'', level)])"
| "metric_instrument framesReceived = (''bre_frames_received_total'', [])"
| "metric_instrument (teeDatagrams form) = (''bre_tee_datagrams_total'', [(''form'', form)])"
| "metric_instrument framesCached = (''bre_frames_cached_total'', [])"
| "metric_instrument (cacheStored source) = (''bre_cache_stored_total'', [(''source'', source)])"
| "metric_instrument (framesDropped reason) = (''bre_frames_dropped_total'', [(''reason'', reason)])"
| "metric_instrument beaconAdvertsSent = (''bre_beacon_adverts_sent_total'', [])"

section \<open>New\<close>

text \<open>What the packages answer, and what \<^verbatim>\<open>New\<close> keeps besides the recorder's own state.\<close>

record metrics_env =
  me_hostname :: "string option"
  me_resource :: "string option"
  me_prometheus :: "string option"
  me_otlp :: "string option"
  me_instrument :: "string \<Rightarrow> string option"

record metrics_handle =
  mh_instance :: string
  mh_otlp :: bool
  mh_instruments :: "string list"
  mh_recorder :: Recorder

fun create_instruments :: "(string \<Rightarrow> string option) \<Rightarrow> string list \<Rightarrow> string list \<Rightarrow> go_error + string list" where
  "create_instruments mk [] got = Inr got"
| "create_instruments mk (n # ns) got =
    (case mk n of Some e \<Rightarrow> Inl (IOErr e) | None \<Rightarrow> create_instruments mk ns (got @ [n]))"

definition metrics_New :: "metrics_env \<Rightarrow> string \<Rightarrow> int \<Rightarrow> string \<Rightarrow> go_error + metrics_handle" where
  "metrics_New E instanceID n otlpEndpoint =
    (let inst = (if instanceID \<noteq> [] then instanceID else case me_hostname E of Some h \<Rightarrow> h | None \<Rightarrow> ''unknown'')
     in if me_resource E \<noteq> None then Inl (Errorf ''metrics: build resource'')
        else if me_prometheus E \<noteq> None then Inl (Errorf ''metrics: prometheus exporter'')
        else if otlpEndpoint \<noteq> [] \<and> me_otlp E \<noteq> None then Inl (Errorf ''metrics: OTLP exporter'')
        else (case create_instruments (me_instrument E) instrument_names [] of
                Inl e \<Rightarrow> Inl e
              | Inr got \<Rightarrow> Inr \<lparr>mh_instance = inst, mh_otlp = (otlpEndpoint \<noteq> []), mh_instruments = got,
                  mh_recorder = new_Recorder n\<rparr>))"

section \<open>Shutdown\<close>

text \<open>
  The state \<open>'m\<close> is that of the exporter and the meter provider.  \<^verbatim>\<open>shutdownFn\<close> calls the functions in the order they were
  appended, all of them, and returns the last error, which \<^verbatim>\<open>Shutdown\<close> logs.
\<close>

record 'm otel =
  ot_exporterShutdown :: "'m \<Rightarrow> go_error option \<times> 'm"
  ot_providerShutdown :: "'m \<Rightarrow> go_error option \<times> 'm"

definition shutdownFuncs :: "'m otel \<Rightarrow> bool \<Rightarrow> ('m \<Rightarrow> go_error option \<times> 'm) list" where
  "shutdownFuncs K otlp = (if otlp then [ot_exporterShutdown K] else []) @ [ot_providerShutdown K]"

fun shutdownFn :: "('m \<Rightarrow> go_error option \<times> 'm) list \<Rightarrow> go_error option \<Rightarrow> 'm \<Rightarrow> go_error option \<times> 'm" where
  "shutdownFn [] lastErr m = (lastErr, m)"
| "shutdownFn (fn # fns) lastErr m = (let (e, m1) = fn m in shutdownFn fns (if e \<noteq> None then e else lastErr) m1)"

definition Recorder_Shutdown :: "'m otel \<Rightarrow> metrics_handle \<Rightarrow> 'm \<Rightarrow> 'm" where
  "Recorder_Shutdown K h m = snd (shutdownFn (shutdownFuncs K (mh_otlp h)) None m)"

section \<open>Serving\<close>

text \<open>
  The routes of \<^verbatim>\<open>Serve\<close> and the status of the two that are the recorder's own: \<^verbatim>\<open>/metrics\<close> and \<^verbatim>\<open>/loglevel\<close> are handlers of other
  packages.  Any other path is not found.
\<close>

datatype route = RMetrics | RHealthz | RReadyz | RLogLevel

definition serve_routes :: "bool \<Rightarrow> (string \<times> route) list" where
  "serve_routes levelVar =
    [(''/metrics'', RMetrics), (''/healthz'', RHealthz), (''/readyz'', RReadyz)] @ (if levelVar then [(''/loglevel'', RLogLevel)] else [])"

definition handleHealthz :: "Recorder \<Rightarrow> int \<times> string" where
  "handleHealthz r = (200, ''ok'')"

definition serve_status :: "bool \<Rightarrow> string \<Rightarrow> Recorder \<Rightarrow> int option" where
  "serve_status levelVar path r =
    (case map_of (serve_routes levelVar) path of
       None \<Rightarrow> Some 404
     | Some RHealthz \<Rightarrow> Some (fst (handleHealthz r))
     | Some RReadyz \<Rightarrow> Some (rz_code (handleReadyz r))
     | Some _ \<Rightarrow> None)"

section \<open>Host facts\<close>

text \<open>The fields of the inventory that \<^verbatim>\<open>SetHostInfo\<close> reads, and \<^verbatim>\<open>strconv.Itoa\<close> on 64 bits (20 digits are enough).\<close>

record host_iface =
  hi_Name :: string
  hi_OperState :: string
  hi_IPv4 :: "string list"
  hi_IPv6 :: "string list"
  hi_SpeedMbps :: int

record inventory =
  inv_Interfaces :: "host_iface list"
  inv_Hostname :: string
  inv_KernelVersion :: string
  inv_CPULogical :: int
  inv_MemTotalBytes :: u64
  inv_Sysctl :: "(string, string) amap"
  inv_Version :: string

definition Itoa :: "int \<Rightarrow> string" where
  "Itoa i = (if i < 0 then ''-'' @ digits_in 20 10 (nat (- i)) else digits_in 20 10 (nat i))"

fun host_nic :: "host_iface list \<Rightarrow> string \<times> string" where
  "host_nic [] = ([], [])"
| "host_nic (i # is) =
    (if hi_OperState i = ''up'' \<and> (hi_IPv4 i \<noteq> [] \<or> hi_IPv6 i \<noteq> [])
     then (hi_Name i, if 0 < hi_SpeedMbps i then Itoa (hi_SpeedMbps i) else [])
     else host_nic is)"

text \<open>The label values of the gauge, if it could be registered.\<close>

definition SetHostInfo :: "string option \<Rightarrow> inventory \<Rightarrow> string list option" where
  "SetHostInfo registerErr hv =
    (let (nic, speed) = host_nic (inv_Interfaces hv) in
     if registerErr \<noteq> None then None
     else Some [inv_Hostname hv, inv_KernelVersion hv, Itoa (inv_CPULogical hv), digits_in 20 10 (unat (inv_MemTotalBytes hv)),
       (case amap_get (inv_Sysctl hv) ''net.core.rmem_max'' of Some v \<Rightarrow> v | None \<Rightarrow> []), nic, speed, inv_Version hv])"

section \<open>Lemmas\<close>

lemma create_instruments_ok:
  "create_instruments mk ns got = Inr all \<longleftrightarrow> all = got @ ns \<and> (\<forall>n \<in> set ns. mk n = None)"
  by (induction ns arbitrary: got) (auto split: option.splits)

lemma metrics_New_ok:
  "metrics_New E instanceID n otlp = Inr h \<longleftrightarrow>
     me_resource E = None \<and> me_prometheus E = None \<and> (otlp \<noteq> [] \<longrightarrow> me_otlp E = None)
   \<and> (\<forall>i \<in> set instrument_names. me_instrument E i = None)
   \<and> h = \<lparr>mh_instance = (if instanceID \<noteq> [] then instanceID else case me_hostname E of Some h \<Rightarrow> h | None \<Rightarrow> ''unknown''),
         mh_otlp = (otlp \<noteq> []), mh_instruments = instrument_names, mh_recorder = new_Recorder n\<rparr>"
proof (cases "create_instruments (me_instrument E) instrument_names []")
  case (Inl e)
  then have "\<not> (\<forall>i \<in> set instrument_names. me_instrument E i = None)"
    using create_instruments_ok [of "me_instrument E" instrument_names "[]"] by force
  with Inl show ?thesis by (auto simp: metrics_New_def Let_def)
next
  case (Inr got)
  with create_instruments_ok [of "me_instrument E" instrument_names "[]" got] show ?thesis by (auto simp: metrics_New_def Let_def)
qed

lemma instrument_names_distinct: "distinct instrument_names"
  by (simp add: instrument_names_def)

lemma metric_registered: "fst (metric_instrument m) \<in> set instrument_names"
  by (cases m) (simp_all add: instrument_names_def)

lemma metric_instrument_inj: "metric_instrument m = metric_instrument m' \<Longrightarrow> m = m'"
  by (cases m; cases m') simp_all

lemma shutdown_all: "snd (shutdownFn fs e m) = foldl (\<lambda>m fn. snd (fn m)) m fs"
proof (induction fs arbitrary: e m)
  case (Cons f fs)
  then show ?case by (cases "f m") simp
qed simp

text \<open>
  With an OTLP endpoint the exporter is shut down before the meter provider.  An exporter that was shut down sends nothing more, as its
  package documents, so what the provider still holds is not delivered: after \<^verbatim>\<open>Shutdown\<close> the collector has what it had when the
  exporter went down.
\<close>

lemma final_metrics_lost:
  assumes "\<And>m. \<not> alive (snd (ot_exporterShutdown K m))"
    and "\<And>m. \<not> alive m \<Longrightarrow> delivered (snd (ot_providerShutdown K m)) = delivered m" and "mh_otlp h"
  shows "delivered (Recorder_Shutdown K h m) = delivered (snd (ot_exporterShutdown K m))"
  using assms by (simp add: Recorder_Shutdown_def shutdown_all shutdownFuncs_def del: shutdownFn.simps)

section \<open>Properties\<close>


section \<open>Concrete instances\<close>

definition ex_metrics_env :: metrics_env where
  "ex_metrics_env = \<lparr>me_hostname = None, me_resource = None, me_prometheus = None, me_otlp = None, me_instrument = (\<lambda>_. None)\<rparr>"

lemma ex_metrics_up: "\<not> isl (metrics_New ex_metrics_env i n otlp)"
proof -
  have "\<exists>h. metrics_New ex_metrics_env i n otlp = Inr h" by (simp add: metrics_New_ok ex_metrics_env_def)
  then show ?thesis by auto
qed

definition ex_handle :: metrics_handle where
  "ex_handle = \<lparr>mh_instance = ''unknown'', mh_otlp = True, mh_instruments = instrument_names, mh_recorder = new_Recorder 1\<rparr>"

lemma ex_metrics_New: "metrics_New ex_metrics_env [] 1 ''otel:4317'' = Inr ex_handle"
  by (simp add: metrics_New_ok ex_metrics_env_def ex_handle_def)


end
