(* ===== verification/Go_Strings.thy ===== *)
theory Go_Strings
  imports Net_Addr "HOL-Library.Char_ord"
begin

text \<open>
  What configuration loading uses of packages \<^verbatim>\<open>strings\<close>, \<^verbatim>\<open>strconv\<close>, \<^verbatim>\<open>net\<close> and \<^verbatim>\<open>net/netip\<close>: trimming, splitting and case
  folding, integers and booleans as text, and textual addresses.  Text is ASCII: folding and white space beyond ASCII are
  not modelled.
\<close>

section \<open>Package strings\<close>

definition is_space :: "char \<Rightarrow> bool" where
  "is_space c \<longleftrightarrow> c \<in> {CHR '' '', CHR 0x09, CHR 0x0A, CHR 0x0B, CHR 0x0C, CHR 0x0D}"

definition TrimSpace :: "string \<Rightarrow> string" where
  "TrimSpace s = rev (dropWhile is_space (rev (dropWhile is_space s)))"

text \<open>\<^verbatim>\<open>strings.Split(s, sep)\<close> for a one-character separator: always at least one part.\<close>

fun Split :: "char \<Rightarrow> string \<Rightarrow> string list" where
  "Split sep [] = [[]]"
| "Split sep (c # s) =
    (if c = sep then [] # Split sep s
     else case Split sep s of p # ps \<Rightarrow> (c # p) # ps | [] \<Rightarrow> [[c]])"

definition lower_char :: "char \<Rightarrow> char" where
  "lower_char c = (if CHR ''A'' \<le> c \<and> c \<le> CHR ''Z'' then char_of (of_char c + 32 :: int) else c)"

definition ToLower :: "string \<Rightarrow> string" where "ToLower s = map lower_char s"

definition EqualFold :: "string \<Rightarrow> string \<Rightarrow> bool" where "EqualFold s t \<longleftrightarrow> ToLower s = ToLower t"

definition HasPrefix :: "string \<Rightarrow> string \<Rightarrow> bool" where "HasPrefix s p \<longleftrightarrow> take (length p) s = p"

section \<open>Package strconv\<close>

definition digit_val :: "char \<Rightarrow> int option" where
  "digit_val c =
    (if CHR ''0'' \<le> c \<and> c \<le> CHR ''9'' then Some (of_char c - 48)
     else let l = lower_char c in if CHR ''a'' \<le> l \<and> l \<le> CHR ''z'' then Some (of_char l - 87) else None)"

fun digits_val :: "int \<Rightarrow> int \<Rightarrow> string \<Rightarrow> int option" where
  "digits_val base acc [] = Some acc"
| "digits_val base acc (c # s) =
    (case digit_val c of
       Some d \<Rightarrow> if d < base then digits_val base (acc * base + d) s else None
     | None \<Rightarrow> None)"

text \<open>\<^verbatim>\<open>ParseUint(s, base, bits)\<close> for an explicit base; \<open>None\<close> is a syntax or range error.\<close>

definition ParseUint :: "string \<Rightarrow> int \<Rightarrow> nat \<Rightarrow> int option" where
  "ParseUint s base bits =
    (if s = [] then None
     else case digits_val base 0 s of None \<Rightarrow> None | Some n \<Rightarrow> if n < 2 ^ bits then Some n else None)"

definition Atoi :: "string \<Rightarrow> int option" where
  "Atoi s =
    (case s of
       [] \<Rightarrow> None
     | c # r \<Rightarrow>
         if c = CHR ''-'' then (case ParseUint r 10 64 of Some n \<Rightarrow> if n \<le> 2 ^ 63 then Some (- n) else None | None \<Rightarrow> None)
         else (case ParseUint (if c = CHR ''+'' then r else s) 10 63 of Some n \<Rightarrow> Some n | None \<Rightarrow> None))"

definition ParseBool :: "string \<Rightarrow> bool option" where
  "ParseBool s =
    (if s \<in> {''1'', ''t'', ''T'', ''TRUE'', ''true'', ''True''} then Some True
     else if s \<in> {''0'', ''f'', ''F'', ''FALSE'', ''false'', ''False''} then Some False
     else None)"

section \<open>Textual addresses\<close>

text \<open>Dotted decimal: four fields of one to three digits without leading zeros, each at most 255.\<close>

definition parse_octet :: "string \<Rightarrow> byte option" where
  "parse_octet s =
    (if s = [] \<or> 3 < length s \<or> (1 < length s \<and> hd s = CHR ''0'') then None
     else case digits_val 10 0 s of Some n \<Rightarrow> if n < 256 then Some (of_int n) else None | None \<Rightarrow> None)"

definition parseIPv4 :: "string \<Rightarrow> bytes option" where
  "parseIPv4 s =
    (case map parse_octet (Split CHR ''.'' s) of
       [Some a, Some b, Some c, Some d] \<Rightarrow> Some [a, b, c, d]
     | _ \<Rightarrow> None)"

text \<open>
  The fields of an IPv6 text: hexadecimal groups of one to four digits, or a dotted IPv4 in the last place, which stands
  for two groups.
\<close>

definition parse_group :: "string \<Rightarrow> bytes option" where
  "parse_group s =
    (if s = [] \<or> 4 < length s then None
     else case digits_val 16 0 s of Some n \<Rightarrow> Some (PutUint16 (of_int n)) | None \<Rightarrow> None)"

fun parse_groups :: "string list \<Rightarrow> bytes option" where
  "parse_groups [] = Some []"
| "parse_groups [g] = (if CHR ''.'' \<in> set g then parseIPv4 g else parse_group g)"
| "parse_groups (g # gs) =
    (case parse_group g of
       Some b \<Rightarrow> (case parse_groups gs of Some bs \<Rightarrow> Some (b @ bs) | None \<Rightarrow> None)
     | None \<Rightarrow> None)"

definition no_dots :: "string list \<Rightarrow> bool" where "no_dots gs \<longleftrightarrow> list_all (\<lambda>g. CHR ''.'' \<notin> set g) gs"

text \<open>Cutting a text at its first \<^verbatim>\<open>::\<close>.\<close>

fun cut_ellipsis :: "string \<Rightarrow> (string \<times> string) option" where
  "cut_ellipsis (c # d # s) =
    (if c = CHR '':'' \<and> d = CHR '':'' then Some ([], s)
     else case cut_ellipsis (d # s) of Some (l, r) \<Rightarrow> Some (c # l, r) | None \<Rightarrow> None)"
| "cut_ellipsis _ = None"

definition field_list :: "string \<Rightarrow> string list" where
  "field_list s = (if s = [] then [] else Split CHR '':'' s)"

definition parseIPv6 :: "string \<Rightarrow> bytes option" where
  "parseIPv6 s =
    (case cut_ellipsis s of
       None \<Rightarrow> (case parse_groups (field_list s) of Some b \<Rightarrow> if length b = 16 then Some b else None | None \<Rightarrow> None)
     | Some (l, r) \<Rightarrow>
         (if \<not> no_dots (field_list l) then None
          else case (parse_groups (field_list l), parse_groups (field_list r)) of
            (Some a, Some b) \<Rightarrow> if length a + length b < 16 then Some (a @ replicate (16 - length a - length b) 0 @ b) else None
          | _ \<Rightarrow> None))"

text \<open>
  \<^verbatim>\<open>netip.ParseAddr\<close>: the first of dot and colon decides the family.  A text with a zone is not an address here: the program
  compares parsed addresses with zoneless ones only.
\<close>

definition ParseAddr :: "string \<Rightarrow> Addr" where
  "ParseAddr s =
    (if CHR ''%'' \<in> set s then InvalidAddr
     else case filter (\<lambda>c. c = CHR ''.'' \<or> c = CHR '':'') s of
       [] \<Rightarrow> InvalidAddr
     | c # _ \<Rightarrow>
         if c = CHR ''.'' then (case parseIPv4 s of Some b \<Rightarrow> Addr4 b | None \<Rightarrow> InvalidAddr)
         else (case parseIPv6 s of Some b \<Rightarrow> Addr6 b | None \<Rightarrow> InvalidAddr))"

text \<open>\<^verbatim>\<open>net.ParseIP\<close>: the 16-byte form, or nil.\<close>

definition ParseIP :: "string \<Rightarrow> bytes option" where
  "ParseIP s = (case ParseAddr s of InvalidAddr \<Rightarrow> None | a \<Rightarrow> Some (As16 a))"

text \<open>Cutting a text at its last colon.\<close>

definition cut_last_colon :: "string \<Rightarrow> (string \<times> string) option" where
  "cut_last_colon s =
    (if CHR '':'' \<notin> set s then None
     else Some (rev (tl (dropWhile (\<lambda>c. c \<noteq> CHR '':'') (rev s))), rev (takeWhile (\<lambda>c. c \<noteq> CHR '':'') (rev s))))"

text \<open>\<^verbatim>\<open>netip.ParseAddrPort\<close>: IPv6 addresses, and only they, stand in brackets.\<close>

definition ParseAddrPort :: "string \<Rightarrow> (Addr \<times> u16) option" where
  "ParseAddrPort s =
    (case cut_last_colon s of
       None \<Rightarrow> None
     | Some (ip, port) \<Rightarrow>
         if ip = [] \<or> port = [] then None
         else
           (let bracketed = hd ip = CHR ''['' in
            if bracketed \<and> (length ip < 2 \<or> last ip \<noteq> CHR '']'') then None
            else
              (case ParseUint port 10 16 of
                 None \<Rightarrow> None
               | Some p \<Rightarrow>
                   (case ParseAddr (if bracketed then butlast (tl ip) else ip) of
                      InvalidAddr \<Rightarrow> None
                    | Addr4 b \<Rightarrow> if bracketed then None else Some (Addr4 b, of_int p)
                    | Addr6 b \<Rightarrow> if bracketed then Some (Addr6 b, of_int p) else None))))"

definition IsLoopback :: "Addr \<Rightarrow> bool" where
  "IsLoopback a = (case a of Addr4 b \<Rightarrow> hd b = 127
     | Addr6 b \<Rightarrow> b = replicate 15 0 @ [1] \<or> take 12 b = v4InV6Prefix \<and> b ! 12 = 127 | InvalidAddr \<Rightarrow> False)"

definition Is4 :: "Addr \<Rightarrow> bool" where
  "Is4 a = (case a of Addr4 b \<Rightarrow> True | _ \<Rightarrow> False)"

definition Is4In6 :: "Addr \<Rightarrow> bool" where
  "Is4In6 a = (case a of Addr6 b \<Rightarrow> take 12 b = v4InV6Prefix | _ \<Rightarrow> False)"

text \<open>\<^verbatim>\<open>net.SplitHostPort\<close>: whether it succeeds, which is all that is asked of it.\<close>

definition SplitHostPort_ok :: "string \<Rightarrow> bool" where
  "SplitHostPort_ok s =
    (case cut_last_colon s of
       None \<Rightarrow> False
     | Some (h, p) \<Rightarrow>
         if h \<noteq> [] \<and> hd h = CHR ''['' then
           CHR '']'' \<in> set h \<and> last h = CHR '']'' \<and> CHR '']'' \<notin> set (butlast h) \<and> CHR ''['' \<notin> set (tl h @ p) \<and> CHR '']'' \<notin> set p
         else CHR '':'' \<notin> set h \<and> CHR ''['' \<notin> set s \<and> CHR '']'' \<notin> set s)"

end
