(* ===== verification/Effects.thy ===== *)
theory Effects
  imports Net_Addr Metrics_Recorder
begin

text \<open>
  The outside world of the request path: the external storage (the state of whatever cache backends
  are configured), the network as a log of datagrams that went on the wire, and the recorder.  Whether
  a socket write fails is decided by the environment: \<open>wr_fail\<close> gives the outcome of the \<open>n\<close>-th write.
  The record \<open>io\<close> is extended by the components that carry further state.
\<close>

datatype conn = NackSock | EgressSock string | UnicastSock | BeaconSock nat | ProxySock string

record sent =
  via :: conn
  dst :: UDPAddr
  payload :: bytes

record net =
  wr_fail :: "nat \<Rightarrow> string option"
  wr_count :: nat
  wire :: "sent list"

definition WriteTo :: "conn \<Rightarrow> bytes \<Rightarrow> UDPAddr \<Rightarrow> net \<Rightarrow> go_error option \<times> net" where
  "WriteTo c pkt d n =
    (case wr_fail n (wr_count n) of
       Some e \<Rightarrow> (Some (IOErr e), n\<lparr>wr_count := Suc (wr_count n)\<rparr>)
     | None \<Rightarrow> (None, n\<lparr>wr_count := Suc (wr_count n), wire := wire n @ [\<lparr>via = c, dst = d, payload = pkt\<rparr>]\<rparr>))"

record 'b io =
  stg :: 'b
  nw :: net
  rcd :: "Recorder option"

definition io_rec :: "(Recorder \<Rightarrow> Recorder) \<Rightarrow> ('b, 'z) io_scheme \<Rightarrow> ('b, 'z) io_scheme" where
  "io_rec f s = s\<lparr>rcd := map_option f (rcd s)\<rparr>"

definition io_write :: "conn \<Rightarrow> bytes \<Rightarrow> UDPAddr \<Rightarrow> ('b, 'z) io_scheme \<Rightarrow> go_error option \<times> ('b, 'z) io_scheme" where
  "io_write c pkt d s = (let (e, n) = WriteTo c pkt d (nw s) in (e, s\<lparr>nw := n\<rparr>))"

section \<open>Lemmas\<close>

text \<open>
  \<open>sends s s' xs\<close>: between \<open>s\<close> and \<open>s'\<close> exactly the datagrams \<open>xs\<close> went on the wire (and the environment's
  decisions on later writes are what they were).
\<close>

definition sends :: "('b, 'z) io_scheme \<Rightarrow> ('b, 'z) io_scheme \<Rightarrow> sent list \<Rightarrow> bool" where
  "sends s s' xs \<longleftrightarrow> wire (nw s') = wire (nw s) @ xs \<and> wr_fail (nw s') = wr_fail (nw s)"

lemma io_rec_simps [simp]:
  "stg (io_rec f s) = stg s" "nw (io_rec f s) = nw s" "rcd (io_rec f s) = map_option f (rcd s)"
  "io.more (io_rec f s) = io.more s"
  by (simp_all add: io_rec_def)

lemma WriteTo_wire:
  "WriteTo c pkt d n = (e, n') \<Longrightarrow>
   wire n' = wire n @ (if e = None then [\<lparr>via = c, dst = d, payload = pkt\<rparr>] else [])
   \<and> wr_fail n' = wr_fail n \<and> (e = None \<or> (\<exists>m. e = Some (IOErr m)))"
  by (auto simp: WriteTo_def split: option.splits)

lemma io_write_wire:
  assumes "io_write c pkt d s = (e, s')"
  shows "wire (nw s') = wire (nw s) @ (if e = None then [\<lparr>via = c, dst = d, payload = pkt\<rparr>] else [])"
    and "stg s' = stg s" and "rcd s' = rcd s" and "io.more s' = io.more s"
    and "e = None \<or> (\<exists>m. e = Some (IOErr m))" and "wr_fail (nw s') = wr_fail (nw s)"
  using assms WriteTo_wire [of c pkt d "nw s"] by (auto simp: io_write_def split: prod.splits)

lemma sends_refl [simp]: "sends s s []"
  by (simp add: sends_def)

lemma sends_io_rec [simp]:
  "sends (io_rec f s) s' xs = sends s s' xs" "sends s (io_rec f s') xs = sends s s' xs"
  by (simp_all add: sends_def)

lemma sends_trans: "sends s s' xs \<Longrightarrow> sends s' s'' ys \<Longrightarrow> sends s s'' (xs @ ys)"
  by (simp add: sends_def)

lemma sends_unique: "sends s s' xs \<Longrightarrow> sends s s' ys \<Longrightarrow> xs = ys"
  by (simp add: sends_def)

lemma sends_write:
  "io_write c pkt d s = (e, s') \<Longrightarrow>
   sends s s' (if e = None then [\<lparr>via = c, dst = d, payload = pkt\<rparr>] else [])"
  by (simp add: sends_def io_write_wire)

text \<open>When no write fails, a write reports success.\<close>

definition net_up :: "('b, 'z) io_scheme \<Rightarrow> bool" where
  "net_up s \<longleftrightarrow> wr_fail (nw s) = (\<lambda>_. None)"

lemma net_up_io_rec [simp]: "net_up (io_rec f s) = net_up s"
  by (simp add: net_up_def)

lemma sends_net_up: "sends s s' xs \<Longrightarrow> net_up s' = net_up s"
  by (simp add: sends_def net_up_def)

lemma io_write_up: "net_up s \<Longrightarrow> io_write c pkt d s = (e, s') \<Longrightarrow> e = None"
  by (auto simp: net_up_def io_write_def WriteTo_def split: prod.splits)

text \<open>The value of a counter; a nil recorder counts nothing.\<close>

definition ctr :: "metric \<Rightarrow> ('b, 'z) io_scheme \<Rightarrow> nat" where
  "ctr m s = (case rcd s of None \<Rightarrow> 0 | Some R \<Rightarrow> counts R m)"

lemma ctr_add [simp]:
  "ctr m (io_rec (add_metric m' n) s) = ctr m s + (if m = m' \<and> rcd s \<noteq> None then n else 0)"
  by (simp add: ctr_def split: option.splits)

lemma ctr_cong: "rcd s' = rcd s \<Longrightarrow> ctr m s' = ctr m s"
  by (simp add: ctr_def)

lemma io_write_ctr: "io_write c pkt d s = (e, s') \<Longrightarrow> ctr m s' = ctr m s"
  by (rule ctr_cong [OF io_write_wire(3)])

end
