(* ===== verification/Shard_Common.thy ===== *)
theory Shard_Common
  imports Net_Addr
begin

text \<open>
  What the program uses of \<^verbatim>\<open>github.com/lightwebinc/shard-common\<close>, which is not part of the repository.
  Functions of that module are parameters, gathered in the records below; what the program relies on is
  stated by the predicates \<open>frame_offsets\<close>, \<open>frame_versions\<close> and \<open>tee_layout\<close>, each of which restates
  documented behaviour.  Constants carry the values the repository documents:
  \<^item> magic and protocol version: \<^verbatim>\<open>docs/architecture.md\<close>, ACK/MISS wire format;
  \<^item> frame versions: the comments of \<^verbatim>\<open>ingress.processFrame\<close> (\<^verbatim>\<open>src/ingress/ingress.go\<close>);
  \<^item> header sizes 92, 66: the comment of \<^verbatim>\<open>buildDedupKey\<close> (\<^verbatim>\<open>src/retransmit/retransmit.go\<close>);
    24 for the tee envelope: \<^verbatim>\<open>docs/architecture.md\<close>, tee ingest;
  \<^item> group indices: the comment of \<^verbatim>\<open>buildSSMGroupSources\<close> (\<^verbatim>\<open>src/main.go\<close>).
\<close>

section \<open>Constants\<close>

definition MagicBSV :: u32 where "MagicBSV = 0xE3E1F3E8"
definition ProtoVer :: u16 where "ProtoVer = 0x02BF"

definition FrameVerV3 :: byte where "FrameVerV3 = 3"
definition FrameVerV4 :: byte where "FrameVerV4 = 4"
definition FrameVerV5 :: byte where "FrameVerV5 = 5"
definition FrameVerV6 :: byte where "FrameVerV6 = 6"
definition FrameVerV8 :: byte where "FrameVerV8 = 8"
definition FrameVerV9 :: byte where "FrameVerV9 = 9"

lemmas frame_vers = FrameVerV3_def FrameVerV4_def FrameVerV5_def FrameVerV6_def FrameVerV8_def FrameVerV9_def

definition frame_HeaderSize :: nat where "frame_HeaderSize = 92"
definition bundle_HeaderSize :: nat where "bundle_HeaderSize = 66"
definition teewire_HeaderSize :: nat where "teewire_HeaderSize = 24"

definition GroupSubtreeDataAnnounce :: u16 where "GroupSubtreeDataAnnounce = 0xFFFB"
definition GroupSubtreeGroupAnnounce :: u16 where "GroupSubtreeGroupAnnounce = 0xFFFC"
definition GroupBeacon :: u16 where "GroupBeacon = 0xFFFD"
definition GroupBlockBroadcast :: u16 where "GroupBlockBroadcast = 0xFFFE"

section \<open>Package frame\<close>

record flow_hdr =
  HashKey :: u64
  SeqNum :: u64

record frag_hdr = flow_hdr +
  OrigFrameVer :: byte
  ff_TxID :: bytes
  ff_SubtreeID :: bytes

record frame_pkg =
  IsBlockFrame :: "bytes \<Rightarrow> bool"
  IsSubtreeDataFrame :: "bytes \<Rightarrow> bool"
  IsAnchorFrame :: "bytes \<Rightarrow> bool"
  IsBundle :: "bytes \<Rightarrow> bool"
  IsBEEFFrame :: "bytes \<Rightarrow> bool"
  IsFragment :: "bytes \<Rightarrow> bool"
  Decode :: "bytes \<Rightarrow> string + flow_hdr"
  DecodeBlock :: "bytes \<Rightarrow> string + flow_hdr"
  DecodeSubtreeData :: "bytes \<Rightarrow> string + flow_hdr"
  DecodeAnchor :: "bytes \<Rightarrow> string + flow_hdr"
  DecodeBEEF :: "bytes \<Rightarrow> string + flow_hdr"
  DecodeFragment :: "bytes \<Rightarrow> string + frag_hdr"

text \<open>
  HashKey and SeqNum sit at offsets 40 and 48 of every frame class the cache stores (comments of
  \<^verbatim>\<open>shardOf\<close>, \<^verbatim>\<open>src/ingress/pipeline.go\<close>, and \<^verbatim>\<open>buildDedupKey\<close>).
\<close>

definition hdr_at_offsets :: "bytes \<Rightarrow> 'a flow_hdr_scheme \<Rightarrow> bool" where
  "hdr_at_offsets raw h \<longleftrightarrow> 56 \<le> length raw \<and> HashKey h = Uint64 (go_slice 40 48 raw)
     \<and> SeqNum h = Uint64 (go_slice 48 56 raw)"

definition frame_offsets :: "frame_pkg \<Rightarrow> bool" where
  "frame_offsets F \<longleftrightarrow> (\<forall>raw h.
      (Decode F raw = Inr h \<longrightarrow> hdr_at_offsets raw h)
    \<and> (DecodeBlock F raw = Inr h \<longrightarrow> hdr_at_offsets raw h)
    \<and> (DecodeSubtreeData F raw = Inr h \<longrightarrow> hdr_at_offsets raw h)
    \<and> (DecodeAnchor F raw = Inr h \<longrightarrow> hdr_at_offsets raw h)
    \<and> (DecodeBEEF F raw = Inr h \<longrightarrow> hdr_at_offsets raw h))
    \<and> (\<forall>raw h. DecodeFragment F raw = Inr h \<longrightarrow> hdr_at_offsets raw h)"

text \<open>The class predicates follow the FrameVer byte, and \<^verbatim>\<open>Decode\<close> rejects the other classes.\<close>

definition frame_versions :: "frame_pkg \<Rightarrow> bool" where
  "frame_versions F \<longleftrightarrow> (\<forall>raw. 7 \<le> length raw \<longrightarrow>
      IsBlockFrame F raw = (raw ! 6 = FrameVerV4)
    \<and> IsSubtreeDataFrame F raw = (raw ! 6 = FrameVerV5)
    \<and> IsAnchorFrame F raw = (raw ! 6 = FrameVerV6)
    \<and> IsBundle F raw = (raw ! 6 = FrameVerV8)
    \<and> IsBEEFFrame F raw = (raw ! 6 = FrameVerV9)
    \<and> IsFragment F raw = (raw ! 6 = FrameVerV3))"

section \<open>Package shard\<close>

record engine =
  Prefix :: u16
  GroupID :: u16
  GroupIndex :: "bytes \<Rightarrow> u32"
  Addr_at :: "u32 \<Rightarrow> int \<Rightarrow> UDPAddr"

type_synonym plane_engine = "bytes \<Rightarrow> u32"

text \<open>\<^verbatim>\<open>shard.GroupAddr(prefix, groupID, index)\<close>.\<close>

type_synonym group_addr = "u16 \<Rightarrow> u16 \<Rightarrow> u16 \<Rightarrow> bytes"

section \<open>Package teewire\<close>

record teewire =
  IsEncap :: "bytes \<Rightarrow> bool"
  Decap :: "bytes \<Rightarrow> string + (Addr \<times> bytes)"

text \<open>An envelope is a 24-byte header in front of the mirrored frame.\<close>

definition tee_layout :: "teewire \<Rightarrow> bool" where
  "tee_layout T \<longleftrightarrow> (\<forall>pkt a p. Decap T pkt = Inr (a, p) \<longrightarrow>
     teewire_HeaderSize \<le> length pkt \<and> p = drop teewire_HeaderSize pkt)"

section \<open>A concrete instance\<close>

text \<open>
  One instance of the parameters with the documented layout, on which the statements that have these
  parameters are evaluated.
\<close>

definition ref_hdr :: "bytes \<Rightarrow> flow_hdr" where
  "ref_hdr raw = \<lparr>HashKey = Uint64 (go_slice 40 48 raw), SeqNum = Uint64 (go_slice 48 56 raw)\<rparr>"

definition ref_has_ver :: "byte \<Rightarrow> bytes \<Rightarrow> bool" where
  "ref_has_ver v raw \<longleftrightarrow> 7 \<le> length raw \<and> raw ! 6 = v"

definition ref_decode :: "bytes \<Rightarrow> string + flow_hdr" where
  "ref_decode raw = (if length raw < frame_HeaderSize then Inl ''short'' else Inr (ref_hdr raw))"

definition ref_frame_pkg :: frame_pkg where
  "ref_frame_pkg =
    \<lparr>IsBlockFrame = ref_has_ver FrameVerV4, IsSubtreeDataFrame = ref_has_ver FrameVerV5,
     IsAnchorFrame = ref_has_ver FrameVerV6, IsBundle = ref_has_ver FrameVerV8,
     IsBEEFFrame = ref_has_ver FrameVerV9, IsFragment = ref_has_ver FrameVerV3,
     Decode = ref_decode, DecodeBlock = ref_decode, DecodeSubtreeData = ref_decode,
     DecodeAnchor = ref_decode, DecodeBEEF = ref_decode,
     DecodeFragment = (\<lambda>raw. if length raw < 104 then Inl ''short''
       else Inr \<lparr>HashKey = Uint64 (go_slice 40 48 raw), SeqNum = Uint64 (go_slice 48 56 raw),
                 OrigFrameVer = raw ! 7, ff_TxID = go_slice 8 40 raw, ff_SubtreeID = go_slice 56 88 raw\<rparr>)\<rparr>"

lemma ref_frame_pkg_ok: "frame_offsets ref_frame_pkg" "frame_versions ref_frame_pkg"
  by (auto simp: frame_offsets_def frame_versions_def ref_frame_pkg_def ref_decode_def ref_hdr_def
      hdr_at_offsets_def frame_HeaderSize_def ref_has_ver_def split: if_splits)

definition ref_group_addr :: group_addr where
  "ref_group_addr p g i = PutUint16 p @ replicate 10 0 @ PutUint16 g @ PutUint16 i"

definition ref_engine :: engine where
  "ref_engine = \<lparr>Prefix = 0xFF05, GroupID = 0xB, GroupIndex = (\<lambda>tx. ucast (hd tx)),
     Addr_at = (\<lambda>i port. \<lparr>uIP = ref_group_addr 0xFF05 0xB (ucast i), uPort = port\<rparr>)\<rparr>"

end
