(* ===== verification/Beacon_Sender.thy ===== *)
theory Beacon_Sender
  imports Effects Shard_Common
begin

text \<open>
  The ADVERT beacon of \<^verbatim>\<open>src/beacon/beacon.go\<close>: the 56-byte datagram, the groups it goes to, and the sending loop.  The
  ticker is a number of ticks, dialling a parameter that gives each group's outcome, and \<^verbatim>\<open>shard.GroupAddr\<close> a parameter.
  Durations are nanoseconds.
\<close>

section \<open>Constants and configuration\<close>

definition ADVERTSize :: nat where "ADVERTSize = 56"
definition MsgTypeADVERT :: byte where "MsgTypeADVERT = 0x20"

definition FlagHasParent :: u16 where "FlagHasParent = 0x0002"
definition FlagDraining :: u16 where "FlagDraining = 0x0004"
definition FlagUnicastRetransmit :: u16 where "FlagUnicastRetransmit = 0x0008"
definition FlagMulticastRetransmit :: u16 where "FlagMulticastRetransmit = 0x0010"

lemmas flag_bits = FlagHasParent_def FlagDraining_def FlagUnicastRetransmit_def FlagMulticastRetransmit_def

record BeaconConfig =
  bc_NACKAddr :: bytes
  bc_NACKPort :: u16
  bc_Tier :: byte
  bc_Preference :: byte
  bc_Interval :: int
  bc_Scope :: byte
  bc_Flags :: u16
  bc_InstanceID :: u32
  bc_GroupID :: u16
  bc_Iface :: "string option"
  bc_BindSource :: "bytes option"
  bc_GroupPrefixes :: "u16 list"

definition beacon_New :: "BeaconConfig \<Rightarrow> BeaconConfig" where
  "beacon_New cfg = (if bc_Interval cfg = 0 then cfg\<lparr>bc_Interval := 60 * 1000000000\<rparr> else cfg)"

section \<open>The datagram\<close>

text \<open>\<^verbatim>\<open>uint16(Interval.Seconds())\<close>: whole seconds, reduced to 16 bits.\<close>

definition intervalSec :: "BeaconConfig \<Rightarrow> u16" where
  "intervalSec cfg = of_int (bc_Interval cfg div 1000000000)"

definition buildADVERT :: "BeaconConfig \<Rightarrow> bytes" where
  "buildADVERT cfg =
    (let b0 = replicate ADVERTSize 0;
         b1 = put_at 0 (PutUint32 MagicBSV) b0;
         b2 = put_at 4 (PutUint16 ProtoVer) b1;
         b3 = put_at 6 [MsgTypeADVERT] b2;
         b4 = put_at 7 [bc_Scope cfg] b3;
         nackIP = (case To16 (bc_NACKAddr cfg) of Some ip \<Rightarrow> ip | None \<Rightarrow> IPv6unspecified);
         b5 = put_at 8 nackIP b4;
         b6 = put_at 24 (PutUint16 (bc_NACKPort cfg)) b5;
         b7 = put_at 26 [bc_Tier cfg] b6;
         b8 = put_at 27 [bc_Preference cfg] b7;
         b9 = put_at 28 (PutUint16 (intervalSec cfg)) b8;
         b10 = put_at 30 (PutUint16 (bc_Flags cfg)) b9
     in put_at 32 (PutUint32 (bc_InstanceID cfg)) b10)"

section \<open>Groups\<close>

definition legacyASMPrefixes :: "byte \<Rightarrow> u16 list" where
  "legacyASMPrefixes scope =
    (if scope = 0x05 \<or> scope = 0xFF then [0xFF05] else [])
     @ (if scope = 0x08 \<or> scope = 0xFF then [0xFF08] else [])
     @ (if scope = 0x0E \<or> scope = 0xFF then [0xFF0E] else [])"

definition beaconGroups :: "group_addr \<Rightarrow> BeaconConfig \<Rightarrow> UDPAddr list" where
  "beaconGroups G cfg =
    (let prefixes = (if bc_GroupPrefixes cfg = [] then legacyASMPrefixes (bc_Scope cfg) else bc_GroupPrefixes cfg)
     in map (\<lambda>p. \<lparr>uIP = G p (bc_GroupID cfg) GroupBeacon, uPort = 9300\<rparr>) prefixes)"

section \<open>Sending\<close>

text \<open>A connection is its number and the group it was dialled to.\<close>

fun beacon_send :: "bytes \<Rightarrow> (nat \<times> UDPAddr) list \<Rightarrow> ('b, 'z) io_scheme \<Rightarrow> ('b, 'z) io_scheme" where
  "beacon_send buf [] s = s"
| "beacon_send buf ((i, grp) # conns) s =
    (let (e, s1) = io_write (BeaconSock i) buf grp s;
         s2 = (if e \<noteq> None then s1 else io_rec rec_BeaconAdvertSent s1)
     in beacon_send buf conns s2)"

definition dial_groups :: "(UDPAddr \<Rightarrow> string option) \<Rightarrow> UDPAddr list \<Rightarrow> (nat \<times> UDPAddr) list" where
  "dial_groups dial groups = List.enumerate 0 (filter (\<lambda>grp. dial grp = None) groups)"

text \<open>The first send happens at startup; \<open>ticks\<close> more follow before the context ends.\<close>

definition beacon_Run :: "group_addr \<Rightarrow> (UDPAddr \<Rightarrow> string option) \<Rightarrow> BeaconConfig \<Rightarrow> nat \<Rightarrow> ('b, 'z) io_scheme \<Rightarrow> ('b, 'z) io_scheme" where
  "beacon_Run G dial cfg ticks s =
    (let buf = buildADVERT cfg;
         groups = beaconGroups G cfg
     in if groups = [] then s
        else
          (let conns = dial_groups dial groups in
           if conns = [] then s
           else ((beacon_send buf conns) ^^ ticks) (beacon_send buf conns s)))"

section \<open>Lemmas\<close>

lemma buildADVERT_append:
  "buildADVERT cfg = PutUint32 MagicBSV @ PutUint16 ProtoVer @ [MsgTypeADVERT, bc_Scope cfg]
     @ (case To16 (bc_NACKAddr cfg) of Some ip \<Rightarrow> ip | None \<Rightarrow> IPv6unspecified)
     @ PutUint16 (bc_NACKPort cfg) @ [bc_Tier cfg, bc_Preference cfg] @ PutUint16 (intervalSec cfg) @ PutUint16 (bc_Flags cfg)
     @ PutUint32 (bc_InstanceID cfg) @ replicate 20 0"
proof -
  have "length (case To16 (bc_NACKAddr cfg) of Some ip \<Rightarrow> ip | None \<Rightarrow> IPv6unspecified) = 16"
    by (auto simp: To16_def)
  then show ?thesis
    by (simp add: buildADVERT_def ADVERTSize_def Let_def put_at_zeros put_at_zeros_0 flip: append_assoc del: append_assoc)
qed

text \<open>The fields of an ADVERT as a listener reads them from the wire layout, rejecting any other datagram.\<close>

record advert =
  ad_Scope :: byte
  ad_NACKAddr :: bytes
  ad_NACKPort :: u16
  ad_Tier :: byte
  ad_Preference :: byte
  ad_IntervalSec :: u16
  ad_Flags :: u16
  ad_InstanceID :: u32

definition parse_advert :: "bytes \<Rightarrow> advert option" where
  "parse_advert d =
    (if length d \<noteq> 56 \<or> Uint32 (go_slice 0 4 d) \<noteq> MagicBSV \<or> Uint16 (go_slice 4 6 d) \<noteq> ProtoVer \<or> d ! 6 \<noteq> 0x20 then None
     else Some \<lparr>ad_Scope = d ! 7, ad_NACKAddr = go_slice 8 24 d, ad_NACKPort = Uint16 (go_slice 24 26 d), ad_Tier = d ! 26,
       ad_Preference = d ! 27, ad_IntervalSec = Uint16 (go_slice 28 30 d), ad_Flags = Uint16 (go_slice 30 32 d),
       ad_InstanceID = Uint32 (go_slice 32 36 d)\<rparr>)"

lemma parse_advert_layout:
  assumes "length ip = 16"
  shows "parse_advert (PutUint32 MagicBSV @ PutUint16 ProtoVer @ [MsgTypeADVERT, sc] @ ip @ PutUint16 port @ [tier, pref]
      @ PutUint16 secs @ PutUint16 flags @ PutUint32 iid @ replicate 20 0)
    = Some \<lparr>ad_Scope = sc, ad_NACKAddr = ip, ad_NACKPort = port, ad_Tier = tier, ad_Preference = pref,
        ad_IntervalSec = secs, ad_Flags = flags, ad_InstanceID = iid\<rparr>"
proof -
  have U: "Uint16 (PutUint16 a) = a" "Uint32 (PutUint32 b) = b" for a b
    using Uint16_PutUint16 [of a "[]"] Uint32_PutUint32 [of b "[]"] by simp_all
  show ?thesis
    using assms by (simp add: parse_advert_def go_slice_def nth_append U MsgTypeADVERT_def)
qed

definition copies_to :: "bytes \<Rightarrow> (nat \<times> UDPAddr) list \<Rightarrow> sent list" where
  "copies_to buf conns = map (\<lambda>(i, grp). \<lparr>via = BeaconSock i, dst = grp, payload = buf\<rparr>) conns"

lemma beacon_send_up:
  assumes "net_up s"
  shows "sends s (beacon_send buf conns s) (copies_to buf conns)"
    and "ctr beaconAdvertsSent (beacon_send buf conns s) = ctr beaconAdvertsSent s + (if rcd s = None then 0 else length conns)"
    and "(rcd (beacon_send buf conns s) = None) = (rcd s = None)" and "net_up (beacon_send buf conns s)"
proof -
  have "sends s (beacon_send buf conns s) (copies_to buf conns)
    \<and> ctr beaconAdvertsSent (beacon_send buf conns s) = ctr beaconAdvertsSent s + (if rcd s = None then 0 else length conns)
    \<and> (rcd (beacon_send buf conns s) = None) = (rcd s = None)"
    using assms
  proof (induction conns arbitrary: s)
    case (Cons c conns)
    obtain i grp where c: "c = (i, grp)" by force
    obtain e s1 where w: "io_write (BeaconSock i) buf grp s = (e, s1)" by force
    have e: "e = None" by (rule io_write_up [OF Cons.prems w])
    have one: "sends s s1 [\<lparr>via = BeaconSock i, dst = grp, payload = buf\<rparr>]" using sends_write [OF w] e by simp
    have "net_up (io_rec rec_BeaconAdvertSent s1)" using sends_net_up [OF one] Cons.prems by simp
    note IH = Cons.IH [OF this]
    have "rcd s1 = rcd s" "ctr beaconAdvertsSent s1 = ctr beaconAdvertsSent s"
      using io_write_wire(3) [OF w] io_write_ctr [OF w] by simp_all
    moreover have "sends s (beacon_send buf conns (io_rec rec_BeaconAdvertSent s1)) (copies_to buf (c # conns))"
      using sends_trans [OF one, of _ "copies_to buf conns"] IH by (simp add: copies_to_def c)
    ultimately show ?case using IH by (simp add: c w e rec_BeaconAdvertSent_def)
  qed (simp add: copies_to_def)
  then show "sends s (beacon_send buf conns s) (copies_to buf conns)"
    "ctr beaconAdvertsSent (beacon_send buf conns s) = ctr beaconAdvertsSent s + (if rcd s = None then 0 else length conns)"
    "(rcd (beacon_send buf conns s) = None) = (rcd s = None)" "net_up (beacon_send buf conns s)"
    using sends_net_up assms by blast+
qed

lemma beacon_ticks_up:
  assumes "net_up s"
  shows "sends s ((beacon_send buf conns ^^ n) s) (concat (replicate n (copies_to buf conns)))
    \<and> ctr beaconAdvertsSent ((beacon_send buf conns ^^ n) s) = ctr beaconAdvertsSent s + (if rcd s = None then 0 else n * length conns)
    \<and> (rcd ((beacon_send buf conns ^^ n) s) = None) = (rcd s = None)"
proof (induction n)
  case (Suc n)
  let ?s = "(beacon_send buf conns ^^ n) s"
  have up: "net_up ?s" using Suc assms sends_net_up by blast
  have "concat (replicate (Suc n) xs) = concat (replicate n xs) @ xs" for xs :: "sent list"
    by (induction n) auto
  then show ?case
    using Suc beacon_send_up [OF up, of buf conns] sends_trans [of s ?s "concat (replicate n (copies_to buf conns))"] by simp
qed simp

lemma beacon_Run_ticks:
  "beacon_Run G dial cfg ticks s
    = (beacon_send (buildADVERT cfg) (dial_groups dial (beaconGroups G cfg)) ^^ Suc ticks) s"
proof (cases "dial_groups dial (beaconGroups G cfg) = []")
  case True
  then have "(beacon_send (buildADVERT cfg) (dial_groups dial (beaconGroups G cfg)) ^^ n) s = s" for n
    by (induction n) auto
  with True show ?thesis by (simp add: beacon_Run_def Let_def del: funpow.simps)
next
  case False
  then have "beaconGroups G cfg \<noteq> []" by (auto simp: dial_groups_def)
  with False show ?thesis by (simp add: beacon_Run_def Let_def funpow_swap1)
qed

lemma intervalSec_exact:
  "0 \<le> bc_Interval cfg \<Longrightarrow> bc_Interval cfg < 65536 * 1000000000 \<Longrightarrow> uint (intervalSec cfg) = bc_Interval cfg div 1000000000"
  by (simp add: intervalSec_def unsigned_of_int take_bit_int_eq_self)

section \<open>Properties\<close>


section \<open>Witness\<close>

definition ex_beacon :: BeaconConfig where
  "ex_beacon = \<lparr>bc_NACKAddr = replicate 15 0 @ [1], bc_NACKPort = 9300, bc_Tier = 1, bc_Preference = 128, bc_Interval = 60 * 1000000000,
     bc_Scope = 0x05, bc_Flags = FlagMulticastRetransmit, bc_InstanceID = 7, bc_GroupID = 0x000B, bc_Iface = None,
     bc_BindSource = None, bc_GroupPrefixes = []\<rparr>"

definition ex_beacon_io :: "unit io" where
  "ex_beacon_io = \<lparr>stg = (), nw = \<lparr>wr_fail = (\<lambda>_. None), wr_count = 0, wire = []\<rparr>, rcd = Some (new_Recorder 1)\<rparr>"


end
