(* ===== verification/Control_Group.thy ===== *)
theory Control_Group
  imports Go_Strings Beacon_Sender
begin

text \<open>
  Which multicast prefixes the control-plane groups use, \<^verbatim>\<open>src/config/controlgroup.go\<close>.  \<^verbatim>\<open>shard.ParseScope\<close> and \<^verbatim>\<open>shard.Prefix\<close>
  are parameters; \<open>ssm_scopes\<close> states what the file documents of them: source-specific control groups exist at site scope
  (FF35) and global scope (FF3E) only.
\<close>

section \<open>Prefixes\<close>

definition Scopes :: "(string, u16) amap" where
  "Scopes = [(''link'', 0xFF02), (''site'', 0xFF05), (''org'', 0xFF08), (''global'', 0xFF0E)]"

definition ControlGroupASMOnly :: string where "ControlGroupASMOnly = ''asm-only''"
definition ControlGroupBoth :: string where "ControlGroupBoth = ''both''"
definition ControlGroupDerived :: string where "ControlGroupDerived = ''derived''"

lemmas control_group_names = ControlGroupASMOnly_def ControlGroupBoth_def ControlGroupDerived_def

record 'sc shard_scopes =
  ParseScope :: "string \<Rightarrow> string + 'sc"
  PrefixSSM :: "'sc \<Rightarrow> string + u16"

definition ControlGroupPrefixes :: "'sc shard_scopes \<Rightarrow> string \<Rightarrow> string \<Rightarrow> string \<Rightarrow> string + u16 list" where
  "ControlGroupPrefixes S cgc sourceMode scopeName =
    (case amap_get Scopes scopeName of
       None \<Rightarrow> Inl ''unknown scope''
     | Some asm \<Rightarrow>
         if cgc = ControlGroupASMOnly then Inr [asm]
         else if cgc \<noteq> ControlGroupBoth \<and> cgc \<noteq> ControlGroupDerived then Inl ''invalid -control-group-compat''
         else
           (let derived =
              (if EqualFold sourceMode ''ssm'' then
                 (case ParseScope S scopeName of
                    Inl _ \<Rightarrow>
                      if cgc = ControlGroupDerived then Inl ''-control-group-compat=derived needs site|global'' else Inr asm
                  | Inr sc \<Rightarrow> PrefixSSM S sc)
               else Inr asm)
            in case derived of
                 Inl e \<Rightarrow> Inl e
               | Inr d \<Rightarrow> if cgc = ControlGroupDerived \<or> d = asm then Inr [d] else Inr [asm, d]))"

definition beaconScopeNames :: "string \<Rightarrow> string + string list" where
  "beaconScopeNames beaconScope =
    (if beaconScope \<in> {''site'', ''org'', ''global''} then Inr [beaconScope]
     else if beaconScope \<in> {''both'', ''all''} then Inr [''site'', ''org'', ''global'']
     else Inl ''beacon-scope must be one of site|org|global|both|all'')"

text \<open>\<open>out\<close> doubles as the set of prefixes seen.\<close>

definition add_new :: "u16 list \<Rightarrow> u16 list \<Rightarrow> u16 list" where
  "add_new out ps = foldl (\<lambda>out p. if p \<in> set out then out else out @ [p]) out ps"

fun scope_prefixes :: "'sc shard_scopes \<Rightarrow> string \<Rightarrow> string \<Rightarrow> string list \<Rightarrow> u16 list \<Rightarrow> string + u16 list" where
  "scope_prefixes S cgc sourceMode [] out = Inr out"
| "scope_prefixes S cgc sourceMode (name # names) out =
    (case ControlGroupPrefixes S cgc sourceMode name of
       Inl e \<Rightarrow> Inl e
     | Inr ps \<Rightarrow> scope_prefixes S cgc sourceMode names (add_new out ps))"

definition BeaconGroupPrefixes :: "'sc shard_scopes \<Rightarrow> string \<Rightarrow> string \<Rightarrow> string \<Rightarrow> string + u16 list" where
  "BeaconGroupPrefixes S cgc sourceMode beaconScope =
    (case beaconScopeNames beaconScope of
       Inl e \<Rightarrow> Inl e
     | Inr names \<Rightarrow> scope_prefixes S cgc sourceMode names [])"

section \<open>Lemmas\<close>

definition ssm_scopes :: "'sc shard_scopes \<Rightarrow> bool" where
  "ssm_scopes S \<longleftrightarrow>
     (\<exists>sc. ParseScope S ''site'' = Inr sc \<and> PrefixSSM S sc = Inr 0xFF35)
   \<and> (\<exists>sc. ParseScope S ''global'' = Inr sc \<and> PrefixSSM S sc = Inr 0xFF3E)
   \<and> (\<exists>e. ParseScope S ''org'' = Inl e) \<and> (\<exists>e. ParseScope S ''link'' = Inl e)"

definition scope_byte :: "string \<Rightarrow> byte" where
  "scope_byte sc = (if sc = ''site'' then 0x05 else if sc = ''org'' then 0x08 else if sc = ''global'' then 0x0E else 0xFF)"

definition scope_ok :: "string \<Rightarrow> bool" where
  "scope_ok sc \<longleftrightarrow> sc \<in> {''site'', ''org'', ''global'', ''both'', ''all''}"

lemma scopes_at [simp]:
  "amap_get Scopes ''site'' = Some 0xFF05" "amap_get Scopes ''org'' = Some 0xFF08" "amap_get Scopes ''global'' = Some 0xFF0E"
  by (simp_all add: Scopes_def amap_get_def)

lemma ssm_fold: "EqualFold ''ssm'' ''ssm''" "\<not> EqualFold ''asm'' ''ssm''"
  by code_simp+

lemma beacon_names:
  "scope_ok sc \<Longrightarrow> beaconScopeNames sc = Inr (if sc = ''both'' \<or> sc = ''all'' then [''site'', ''org'', ''global''] else [sc])"
  by (auto simp: scope_ok_def beaconScopeNames_def)

text \<open>One scope name at a time.\<close>

lemma prefixes_asm:
  assumes "amap_get Scopes name = Some asm"
  shows "ControlGroupPrefixes S ''asm-only'' mode name = Inr [asm]"
    and "cgc \<in> {''asm-only'', ''both'', ''derived''} \<Longrightarrow> ControlGroupPrefixes S cgc ''asm'' name = Inr [asm]"
  using assms by (auto simp: ControlGroupPrefixes_def control_group_names ssm_fold)

lemma prefixes_ssm:
  assumes "ssm_scopes S"
  shows "ControlGroupPrefixes S ''both'' ''ssm'' ''site'' = Inr [0xFF05, 0xFF35]"
    "ControlGroupPrefixes S ''both'' ''ssm'' ''global'' = Inr [0xFF0E, 0xFF3E]"
    "ControlGroupPrefixes S ''both'' ''ssm'' ''org'' = Inr [0xFF08]"
    "ControlGroupPrefixes S ''derived'' ''ssm'' ''site'' = Inr [0xFF35]"
    "ControlGroupPrefixes S ''derived'' ''ssm'' ''global'' = Inr [0xFF3E]"
    "\<exists>e. ControlGroupPrefixes S ''derived'' ''ssm'' ''org'' = Inl e"
proof -
  from assms obtain a b c where "ParseScope S ''site'' = Inr a" "PrefixSSM S a = Inr 0xFF35"
    "ParseScope S ''global'' = Inr b" "PrefixSSM S b = Inr 0xFF3E" "ParseScope S ''org'' = Inl c"
    unfolding ssm_scopes_def by blast
  then show "ControlGroupPrefixes S ''both'' ''ssm'' ''site'' = Inr [0xFF05, 0xFF35]"
    "ControlGroupPrefixes S ''both'' ''ssm'' ''global'' = Inr [0xFF0E, 0xFF3E]"
    "ControlGroupPrefixes S ''both'' ''ssm'' ''org'' = Inr [0xFF08]"
    "ControlGroupPrefixes S ''derived'' ''ssm'' ''site'' = Inr [0xFF35]"
    "ControlGroupPrefixes S ''derived'' ''ssm'' ''global'' = Inr [0xFF3E]"
    "\<exists>e. ControlGroupPrefixes S ''derived'' ''ssm'' ''org'' = Inl e"
    by (simp_all add: ControlGroupPrefixes_def control_group_names ssm_fold)
qed

lemmas resolve_simps = BeaconGroupPrefixes_def beacon_names add_new_def

section \<open>Properties\<close>

text \<open>
  C39: The prefixes a beacon scope resolves to.  Under \<^verbatim>\<open>asm-only\<close>, and under every setting when the source mode is
  any-source, they are the any-source prefixes of the scope, which are also those the sender falls back to by its scope
  byte, so upgrading never moves the groups.  Under \<^verbatim>\<open>both\<close> resolution never fails and keeps every any-source prefix,
  adding FF35 and FF3E.  Under \<^verbatim>\<open>derived\<close> in source-specific mode it yields source-specific prefixes only, and fails
  exactly for scopes that include \<^verbatim>\<open>org\<close>.
\<close>

theorem control_group_modes:
  assumes "ssm_scopes S" and "scope_ok sc" and "cgc \<in> {''asm-only'', ''both'', ''derived''}"
  shows "BeaconGroupPrefixes S ''asm-only'' mode sc = Inr (legacyASMPrefixes (scope_byte sc))
    \<and> BeaconGroupPrefixes S cgc ''asm'' sc = Inr (legacyASMPrefixes (scope_byte sc))
    \<and> BeaconGroupPrefixes S ''both'' ''ssm'' sc =
        Inr (if sc = ''site'' then [0xFF05, 0xFF35] else if sc = ''org'' then [0xFF08]
             else if sc = ''global'' then [0xFF0E, 0xFF3E] else [0xFF05, 0xFF35, 0xFF08, 0xFF0E, 0xFF3E])
    \<and> (if sc = ''site'' then BeaconGroupPrefixes S ''derived'' ''ssm'' sc = Inr [0xFF35]
       else if sc = ''global'' then BeaconGroupPrefixes S ''derived'' ''ssm'' sc = Inr [0xFF3E]
       else \<exists>e. BeaconGroupPrefixes S ''derived'' ''ssm'' sc = Inl e)"
proof -
  note asm = prefixes_asm(1) [OF scopes_at(1)] prefixes_asm(1) [OF scopes_at(2)] prefixes_asm(1) [OF scopes_at(3)]
    prefixes_asm(2) [OF scopes_at(1) assms(3)] prefixes_asm(2) [OF scopes_at(2) assms(3)] prefixes_asm(2) [OF scopes_at(3) assms(3)]
  note ssm = prefixes_ssm [OF assms(1)]
  obtain e where e: "ControlGroupPrefixes S ''derived'' ''ssm'' ''org'' = Inl e" using ssm(6) by blast
  from assms(2) consider "sc = ''site''" | "sc = ''org''" | "sc = ''global''" | "sc = ''both''" | "sc = ''all''"
    unfolding scope_ok_def by blast
  then show ?thesis
    by cases (use assms(2) in \<open>simp_all add: resolve_simps legacyASMPrefixes_def scope_byte_def asm ssm(1-5) e\<close>)
qed

section \<open>Witness\<close>

definition ref_scopes :: "u16 shard_scopes" where
  "ref_scopes = \<lparr>ParseScope = (\<lambda>s. if s = ''site'' then Inr 5 else if s = ''global'' then Inr 14 else Inl ''no SSM scope''),
     PrefixSSM = (\<lambda>sc. Inr (0xFF30 OR sc))\<rparr>"

lemma ref_scopes_ok: "ssm_scopes ref_scopes"
  by (simp add: ssm_scopes_def ref_scopes_def)

theorem control_group_modes_witness:
  "BeaconGroupPrefixes ref_scopes ''both'' ''ssm'' ''site'' = Inr [0xFF05, 0xFF35]
   \<and> (\<exists>e. BeaconGroupPrefixes ref_scopes ''derived'' ''ssm'' ''all'' = Inl e)"
  using control_group_modes [OF ref_scopes_ok, of "''site''" "''both''" "''ssm''"]
    control_group_modes [OF ref_scopes_ok, of "''all''" "''both''" "''ssm''"]
  by (simp add: scope_ok_def)

end
