(* ===== verification/Event_Log.thy ===== *)
theory Event_Log
  imports Go_Prelude
begin

text \<open>
  The per-key event log of \<^verbatim>\<open>src/ratelimit/ratelimit.go\<close> (\<^verbatim>\<open>eventLog\<close>: \<^verbatim>\<open>allow\<close>, \<^verbatim>\<open>expire\<close>, \<^verbatim>\<open>idle\<close>), with the
  slice header it manipulates (elements, nil-ness, capacity) and Go's run-time panic on an index out
  of range (\<open>None\<close>).  The locale \<open>window_log\<close> is the contract the sliding-window limiter relies on,
  stated against a reference log that filters its events from scratch; \<open>eventLog\<close> is its
  interpretation.

  Timestamps are the nanoseconds of \<^verbatim>\<open>monoNow\<close>, non-negative and far below \<open>2 ^ 63\<close>, so the
  subtractions of the code do not wrap and plain integers are used.
\<close>

section \<open>The log\<close>

record eventLog =
  log_ts :: "int list"
  log_nil :: bool
  log_cap :: nat
  log_head :: nat

definition new_eventLog :: eventLog where
  "new_eventLog = \<lparr>log_ts = [], log_nil = True, log_cap = 0, log_head = 0\<rparr>"

definition logInitCap :: nat where "logInitCap = 4"
definition logShrinkCap :: nat where "logShrinkCap = 256"

text \<open>\<^verbatim>\<open>for l.ts[l.head] <= cutoff { l.head++ }\<close>; \<open>None\<close> is the panic of an index past the end.\<close>

function skip_expired :: "int list \<Rightarrow> int \<Rightarrow> nat \<Rightarrow> nat option" where
  "skip_expired xs cutoff h =
     (if h < length xs then (if xs ! h \<le> cutoff then skip_expired xs cutoff (Suc h) else Some h)
      else None)"
  by pat_completeness auto
termination
  by (relation "measure (\<lambda>(xs, cutoff, h). length xs - h)") auto

declare skip_expired.simps [simp del]

definition log_expire :: "int \<Rightarrow> eventLog \<Rightarrow> eventLog option" where
  "log_expire cutoff l =
    (let n = length (log_ts l) in
     if n = 0 then Some l
     else if last (log_ts l) \<le> cutoff then
       (if logShrinkCap < log_cap l
        then Some (l\<lparr>log_head := 0, log_ts := [], log_nil := True, log_cap := 0\<rparr>)
        else Some (l\<lparr>log_head := 0, log_ts := []\<rparr>))
     else (case skip_expired (log_ts l) cutoff (log_head l) of
       None \<Rightarrow> None
     | Some h \<Rightarrow>
         (if 2 * h < n then Some (l\<lparr>log_head := h\<rparr>)
          else (let lv = drop h (log_ts l) in
            if logShrinkCap < log_cap l \<and> 8 * length lv < log_cap l
            then Some (l\<lparr>log_ts := lv, log_nil := False, log_cap := 2 * length lv, log_head := 0\<rparr>)
            else Some (l\<lparr>log_ts := lv, log_head := 0\<rparr>)))))"

text \<open>
  \<open>grow\<close> is the capacity Go's \<^verbatim>\<open>append\<close> chooses when the array is full; the language leaves it open and
  every theorem holds for each choice.
\<close>

definition log_allow :: "(nat \<Rightarrow> nat) \<Rightarrow> int \<Rightarrow> int \<Rightarrow> int \<Rightarrow> eventLog \<Rightarrow> (bool \<times> eventLog) option" where
  "log_allow grow now window maxEv l =
    (case log_expire (now - window) l of
       None \<Rightarrow> None
     | Some l1 \<Rightarrow>
         if maxEv \<le> int (length (log_ts l1)) - int (log_head l1) then Some (False, l1)
         else (let l2 = (if log_nil l1 then l1\<lparr>log_ts := [], log_nil := False, log_cap := logInitCap\<rparr> else l1);
                   c = (if length (log_ts l2) < log_cap l2 then log_cap l2 else grow (log_cap l2))
               in Some (True, l2\<lparr>log_ts := log_ts l2 @ [now], log_cap := c\<rparr>)))"

definition log_idle :: "int \<Rightarrow> eventLog \<Rightarrow> bool" where
  "log_idle cutoff l \<longleftrightarrow> log_ts l = [] \<or> last (log_ts l) \<le> cutoff"

section \<open>Abstraction and invariant\<close>

definition log_live :: "eventLog \<Rightarrow> int list" where
  "log_live l = drop (log_head l) (log_ts l)"

definition log_inv :: "eventLog \<Rightarrow> bool" where
  "log_inv l \<longleftrightarrow> sorted (log_ts l) \<and> (if log_ts l = [] then log_head l = 0 else log_head l < length (log_ts l))
     \<and> (log_nil l \<longrightarrow> log_ts l = [])"

text \<open>The reference: keep what is younger than the window, admit if fewer than \<open>maxEv\<close> remain.\<close>

definition ref_log_allow :: "int \<Rightarrow> int \<Rightarrow> int \<Rightarrow> int list \<Rightarrow> bool \<times> int list" where
  "ref_log_allow now window maxEv es =
    (let es' = filter (\<lambda>t. now - window < t) es
     in if maxEv \<le> int (length es') then (False, es') else (True, es' @ [now]))"

lemma ref_log_allow_set: "ref_log_allow now w m es = (b, es') \<Longrightarrow> set es' \<subseteq> insert now (set es)"
  by (auto simp: ref_log_allow_def Let_def split: if_splits)

section \<open>The contract of a window log\<close>

locale window_log =
  fixes new :: 'l
    and allow :: "int \<Rightarrow> int \<Rightarrow> int \<Rightarrow> 'l \<Rightarrow> (bool \<times> 'l) option"
    and isIdle :: "int \<Rightarrow> 'l \<Rightarrow> bool"
    and events :: "'l \<Rightarrow> int list"
    and inv :: "'l \<Rightarrow> bool"
  assumes inv_new: "inv new"
    and events_new: "events new = []"
    and allow_ref: "inv l \<Longrightarrow> (\<And>t. t \<in> set (events l) \<Longrightarrow> t \<le> now) \<Longrightarrow>
      \<exists>b l'. allow now w m l = Some (b, l') \<and> inv l' \<and> ref_log_allow now w m (events l) = (b, events l')"
    and idle_iff: "inv l \<Longrightarrow> isIdle c l \<longleftrightarrow> (\<forall>t \<in> set (events l). t \<le> c)"
begin

lemma allow_total:
  assumes "inv l" and "\<And>t. t \<in> set (events l) \<Longrightarrow> t \<le> now"
  obtains b l' where "allow now w m l = Some (b, l')" and "inv l'"
    and "ref_log_allow now w m (events l) = (b, events l')"
  using allow_ref [OF assms] by blast

lemma events_bounded:
  assumes "inv l" and "\<And>t. t \<in> set (events l) \<Longrightarrow> t \<le> now"
    and "allow now w m l = Some (b, l')" and "t \<in> set (events l')"
  shows "t \<le> now"
proof -
  have "ref_log_allow now w m (events l) = (b, events l')"
    using allow_ref [OF assms(1,2), of w m] assms(3) by auto
  from ref_log_allow_set [OF this] assms(2,4) show ?thesis by blast
qed

lemma idle_filter:
  assumes "inv l" and "isIdle (now - w) l" and "now \<le> now'"
  shows "filter (\<lambda>t. now' - w < t) (events l) = []"
  using assms idle_iff [OF assms(1), of "now - w"] by (auto simp: filter_empty_conv)

end

section \<open>Lemmas\<close>

lemma sorted_drop_filter:
  assumes "sorted xs" and "h < length xs" and "\<not> xs ! h \<le> c"
  shows "filter (\<lambda>t. c < t) (drop h xs) = drop h xs"
proof -
  have "c < t" if "t \<in> set (drop h xs)" for t
  proof -
    from that obtain i where "i < length xs - h" and "t = xs ! (h + i)"
      by (auto simp: in_set_conv_nth)
    then have "h + i < length xs" and "t = xs ! (h + i)" by simp_all
    with assms show ?thesis
      using sorted_nth_mono [OF assms(1), of h "h + i"] by simp
  qed
  then show ?thesis by (simp add: filter_id_conv)
qed

lemma skip_expired_drop:
  "sorted xs \<Longrightarrow> h < length xs \<Longrightarrow> cutoff < last xs \<Longrightarrow>
   \<exists>h'. skip_expired xs cutoff h = Some h' \<and> h' < length xs
     \<and> drop h' xs = filter (\<lambda>t. cutoff < t) (drop h xs)"
proof (induction xs cutoff h rule: skip_expired.induct)
  case (1 xs cutoff h)
  show ?case
  proof (cases "xs ! h \<le> cutoff")
    case True
    have "h \<noteq> length xs - 1"
      using True "1.prems" by (metis last_conv_nth leD list.size(3) not_less_zero)
    with "1.prems"(2) have "Suc h < length xs" by linarith
    with "1.IH" [OF "1.prems"(2) True] "1.prems" obtain h' where
      "skip_expired xs cutoff (Suc h) = Some h'" "h' < length xs"
      "drop h' xs = filter (\<lambda>t. cutoff < t) (drop (Suc h) xs)"
      by blast
    moreover have "drop h xs = xs ! h # drop (Suc h) xs"
      using "1.prems"(2) by (simp add: Cons_nth_drop_Suc)
    ultimately show ?thesis
      using True "1.prems"(2) by (auto simp: skip_expired.simps [of xs cutoff h])
  next
    case False
    with "1.prems" show ?thesis
      by (auto simp: skip_expired.simps [of xs cutoff h] sorted_drop_filter)
  qed
qed

lemma live_last:
  "log_inv l \<Longrightarrow> log_ts l \<noteq> [] \<Longrightarrow> log_live l \<noteq> [] \<and> last (log_live l) = last (log_ts l)"
  by (auto simp: log_inv_def log_live_def)

lemma sorted_le_last: "sorted xs \<Longrightarrow> t \<in> set xs \<Longrightarrow> t \<le> last xs"
  by (induction xs) auto

lemma live_subset: "t \<in> set (log_live l) \<Longrightarrow> t \<in> set (log_ts l)"
  by (auto simp: log_live_def dest: in_set_dropD)

text \<open>Expiry never panics, and what it leaves is exactly the events younger than the cutoff.\<close>

lemma expire_live:
  assumes "log_inv l"
  shows "\<exists>l'. log_expire cutoff l = Some l' \<and> log_inv l' \<and> log_live l' = filter (\<lambda>t. cutoff < t) (log_live l)"
proof -
  consider "log_ts l = []" | "log_ts l \<noteq> []" "last (log_ts l) \<le> cutoff" | "log_ts l \<noteq> []" "cutoff < last (log_ts l)"
    by fastforce
  then show ?thesis
  proof cases
    case 1
    with assms show ?thesis by (auto simp: log_expire_def log_live_def)
  next
    case 2
    have "\<not> cutoff < t" if "t \<in> set (log_live l)" for t
      using 2 assms sorted_le_last [of "log_ts l" t] live_subset [OF that] by (auto simp: log_inv_def)
    then have "filter (\<lambda>t. cutoff < t) (log_live l) = []" by (simp add: filter_empty_conv)
    with 2 assms show ?thesis by (auto simp: log_expire_def log_live_def log_inv_def)
  next
    case 3
    with assms obtain h where h: "skip_expired (log_ts l) cutoff (log_head l) = Some h" "h < length (log_ts l)"
      "drop h (log_ts l) = filter (\<lambda>t. cutoff < t) (log_live l)"
      using skip_expired_drop [of "log_ts l" "log_head l" cutoff] by (auto simp: log_inv_def log_live_def)
    have "sorted (drop h (log_ts l))" using assms by (simp add: log_inv_def sorted_wrt_drop)
    with h 3 assms show ?thesis
      by (auto simp: log_expire_def log_live_def log_inv_def Let_def)
  qed
qed

lemma length_live: "log_inv l \<Longrightarrow> int (length (log_live l)) = int (length (log_ts l)) - int (log_head l)"
  by (auto simp: log_live_def log_inv_def split: if_splits)

lemma live_snoc:
  "log_inv l \<Longrightarrow> drop (log_head l) (log_ts l @ [now]) = log_live l @ [now]"
  by (auto simp: log_live_def log_inv_def split: if_splits)

lemma log_inv_snoc:
  assumes "log_inv l" and "\<And>t. t \<in> set (log_live l) \<Longrightarrow> t \<le> now"
  shows "sorted (log_ts l @ [now]) \<and> log_head l < length (log_ts l @ [now])"
proof -
  have "t \<le> now" if "t \<in> set (log_ts l)" for t
  proof -
    from that have "log_ts l \<noteq> []" by auto
    with assms live_last [of l] have "last (log_ts l) \<le> now" by (metis last_in_set)
    moreover have "t \<le> last (log_ts l)" using assms(1) that by (simp add: log_inv_def sorted_le_last)
    ultimately show ?thesis by simp
  qed
  with assms(1) show ?thesis by (auto simp: log_inv_def sorted_append split: if_splits)
qed

lemma log_allow_ref:
  assumes inv: "log_inv l" and le: "\<And>t. t \<in> set (log_live l) \<Longrightarrow> t \<le> now"
  shows "\<exists>b l'. log_allow grow now window maxEv l = Some (b, l') \<and> log_inv l'
     \<and> ref_log_allow now window maxEv (log_live l) = (b, log_live l')"
proof -
  obtain l1 where l1: "log_expire (now - window) l = Some l1" "log_inv l1"
    "log_live l1 = filter (\<lambda>t. now - window < t) (log_live l)"
    using expire_live [OF inv] by blast
  have le1: "t \<le> now" if "t \<in> set (log_live l1)" for t
    using that le l1(3) by simp
  have len: "int (length (log_ts l1)) - int (log_head l1) = int (length (log_live l1))"
    by (simp add: length_live [OF l1(2)])
  show ?thesis
  proof (cases "maxEv \<le> int (length (log_live l1))")
    case True
    then have "log_allow grow now window maxEv l = Some (False, l1)"
      using l1(1) len by (simp add: log_allow_def)
    moreover have "ref_log_allow now window maxEv (log_live l) = (False, log_live l1)"
      using True l1(3) by (simp add: ref_log_allow_def)
    ultimately show ?thesis using l1(2) by blast
  next
    case False
    from log_inv_snoc [OF l1(2) le1] have sn: "sorted (log_ts l1 @ [now])" "log_head l1 < length (log_ts l1 @ [now])"
      by auto
    from l1(2) have nil: "log_nil l1 \<Longrightarrow> log_ts l1 = []" by (simp add: log_inv_def)
    obtain l' where l': "log_allow grow now window maxEv l = Some (True, l')"
      "log_ts l' = log_ts l1 @ [now]" "log_head l' = log_head l1" "\<not> log_nil l'"
      using l1(1) len False nil by (simp add: log_allow_def Let_def)
    then have "log_inv l'" "log_live l' = log_live l1 @ [now]"
      using sn live_snoc [OF l1(2)] by (auto simp: log_inv_def log_live_def)
    moreover have "ref_log_allow now window maxEv (log_live l) = (True, log_live l1 @ [now])"
      using False l1(3) by (simp add: ref_log_allow_def)
    ultimately show ?thesis using l'(1) by auto
  qed
qed

lemma idle_live: "log_inv l \<Longrightarrow> log_idle c l \<longleftrightarrow> (\<forall>t \<in> set (log_live l). t \<le> c)"
proof -
  assume inv: "log_inv l"
  show ?thesis
  proof (cases "log_ts l = []")
    case True
    then show ?thesis by (simp add: log_idle_def log_live_def)
  next
    case False
    with inv live_last [OF inv] have "last (log_ts l) \<in> set (log_live l)" by (metis last_in_set)
    moreover have "t \<le> last (log_ts l)" if "t \<in> set (log_live l)" for t
      using inv live_subset [OF that] by (simp add: log_inv_def sorted_le_last)
    ultimately show ?thesis using False by (force simp: log_idle_def)
  qed
qed

interpretation el: window_log new_eventLog "log_allow grow" log_idle log_live log_inv for grow
proof unfold_locales
  show "log_inv new_eventLog" and "log_live new_eventLog = []"
    by (simp_all add: new_eventLog_def log_inv_def log_live_def)
qed (rule log_allow_ref idle_live; assumption)+

end
