(* ===== verification/Window_Limiter.thy ===== *)
theory Window_Limiter
  imports Event_Log
begin

text \<open>
  The sliding-window limiter of \<^verbatim>\<open>src/ratelimit/ratelimit.go\<close> (\<^verbatim>\<open>slidingWindowLimiter\<close>): a map from key
  to event log, swept when it has grown to \<^verbatim>\<open>sweepAt\<close> keys or a window has passed since the last sweep.
  The locale \<open>key_window\<close> is the contract of one step; inside it a run of requests is shown to make
  exactly the decisions of a reference limiter that keeps every admitted event for ever, and that
  reference admits at most \<open>m\<close> events in any window.  The interpretation discharges the contract for
  the code's limiter, so sweeping, re-basing and shrinking change no decision.
\<close>

section \<open>The limiter\<close>

record 'k slidingWindowLimiter =
  sw_keys :: "('k, eventLog) amap"
  sw_max :: int
  sw_window :: int
  sw_maxKeys :: int
  sw_sweepAt :: int
  sw_lastSweep :: int
  sw_peak :: int

definition maxWindowKeys :: int where "maxWindowKeys = 100000"

definition newSlidingWindowLimiter :: "int \<Rightarrow> int \<Rightarrow> int \<Rightarrow> 'k slidingWindowLimiter" where
  "newSlidingWindowLimiter m w mk =
     \<lparr>sw_keys = [], sw_max = m, sw_window = w, sw_maxKeys = mk, sw_sweepAt = mk, sw_lastSweep = 0, sw_peak = 0\<rparr>"

definition evictExpiredLocked :: "int \<Rightarrow> 'k slidingWindowLimiter \<Rightarrow> 'k slidingWindowLimiter" where
  "evictExpiredLocked now r =
    (let cutoff = now - sw_window r;
         ks = filter (\<lambda>(k, l). \<not> log_idle cutoff l) (sw_keys r);
         n = int (length ks);
         r1 = r\<lparr>sw_keys := ks, sw_peak := (if 4 * n < sw_peak r then n else sw_peak r)\<rparr>
     in r1\<lparr>sw_sweepAt := max (sw_maxKeys r) (2 * n), sw_lastSweep := now\<rparr>)"

text \<open>The log a request on \<open>key\<close> works on, and the limiter after the map has made room for it.\<close>

definition findLog :: "'k \<Rightarrow> int \<Rightarrow> 'k slidingWindowLimiter \<Rightarrow> eventLog \<times> 'k slidingWindowLimiter" where
  "findLog key now r =
    (case amap_get (sw_keys r) key of
       Some l \<Rightarrow> (l, r)
     | None \<Rightarrow>
        (let r1 = (if sw_sweepAt r \<le> int (length (sw_keys r)) \<or> sw_window r \<le> now - sw_lastSweep r
                   then evictExpiredLocked now r else r);
             ks = amap_put key new_eventLog (sw_keys r1)
         in (new_eventLog, r1\<lparr>sw_keys := ks, sw_peak := max (sw_peak r1) (int (length ks))\<rparr>)))"

definition allowLocked :: "(nat \<Rightarrow> nat) \<Rightarrow> 'k \<Rightarrow> int \<Rightarrow> 'k slidingWindowLimiter
    \<Rightarrow> (bool \<times> 'k slidingWindowLimiter) option" where
  "allowLocked grow key now r =
    (let (l, r1) = findLog key now r in
     case log_allow grow now (sw_window r1) (sw_max r1) l of
       None \<Rightarrow> None
     | Some (b, l') \<Rightarrow> Some (b, r1\<lparr>sw_keys := amap_put key l' (sw_keys r1)\<rparr>))"

section \<open>The reference limiter\<close>

definition ref_allow :: "int \<Rightarrow> int \<Rightarrow> 'k \<Rightarrow> int \<Rightarrow> ('k \<Rightarrow> int list) \<Rightarrow> bool \<times> ('k \<Rightarrow> int list)" where
  "ref_allow w m k now adm =
    (if m \<le> int (length (filter (\<lambda>t. now - w < t) (adm k))) then (False, adm)
     else (True, adm(k := adm k @ [now])))"

fun ref_run :: "int \<Rightarrow> int \<Rightarrow> ('k \<Rightarrow> int list) \<Rightarrow> ('k \<times> int) list \<Rightarrow> bool list" where
  "ref_run w m adm [] = []"
| "ref_run w m adm ((k, now) # reqs) =
     (let (b, adm') = ref_allow w m k now adm in b # ref_run w m adm' reqs)"

fun run_allow :: "('k \<Rightarrow> int \<Rightarrow> 's \<Rightarrow> (bool \<times> 's) option) \<Rightarrow> ('k \<times> int) list \<Rightarrow> 's \<Rightarrow> (bool list \<times> 's) option" where
  "run_allow f [] s = Some ([], s)"
| "run_allow f ((k, now) # reqs) s =
     (case f k now s of None \<Rightarrow> None
      | Some (b, s') \<Rightarrow> (case run_allow f reqs s' of None \<Rightarrow> None
                        | Some (bs, s'') \<Rightarrow> Some (b # bs, s'')))"

text \<open>The times at which requests on \<open>k\<close> were admitted, in order.\<close>

definition admitted :: "'k \<Rightarrow> ('k \<times> int) list \<Rightarrow> bool list \<Rightarrow> int list" where
  "admitted k reqs bs = map (snd \<circ> fst) (filter (\<lambda>((k', t), b). k' = k \<and> b) (zip reqs bs))"

section \<open>The reference admits at most m events per window\<close>

definition win_bounded :: "int \<Rightarrow> int \<Rightarrow> int list \<Rightarrow> bool" where
  "win_bounded w m es \<longleftrightarrow> (\<forall>e. int (length (filter (\<lambda>t. e - w < t \<and> t \<le> e) es)) \<le> max 0 m)"

lemma length_filter_mono: "(\<And>x. x \<in> set xs \<Longrightarrow> P x \<Longrightarrow> Q x) \<Longrightarrow> length (filter P xs) \<le> length (filter Q xs)"
  by (induction xs) (auto simp: le_SucI)

lemma win_bounded_snoc:
  assumes "win_bounded w m es" and "\<And>t. t \<in> set es \<Longrightarrow> t \<le> now"
    and "\<not> m \<le> int (length (filter (\<lambda>t. now - w < t) es))"
  shows "win_bounded w m (es @ [now])"
proof -
  have "int (length (filter (\<lambda>t. e - w < t \<and> t \<le> e) (es @ [now]))) \<le> max 0 m" for e
  proof (cases "now \<le> e")
    case True
    have "length (filter (\<lambda>t. e - w < t \<and> t \<le> e) es) \<le> length (filter (\<lambda>t. now - w < t) es)"
      by (rule length_filter_mono) (use True in auto)
    with assms(3) show ?thesis by auto
  next
    case False
    with assms(1) show ?thesis by (simp add: win_bounded_def)
  qed
  then show ?thesis by (simp add: win_bounded_def)
qed

lemma ref_run_bounded:
  assumes "sorted (map snd reqs)" and "\<And>k t. t \<in> set (adm k) \<Longrightarrow> (\<forall>(k', t') \<in> set reqs. t \<le> t')"
    and "\<And>k. win_bounded w m (adm k)"
  shows "win_bounded w m (adm k @ admitted k reqs (ref_run w m adm reqs))"
  using assms
proof (induction reqs arbitrary: adm)
  case Nil
  then show ?case by (simp add: admitted_def)
next
  case (Cons req reqs)
  obtain k0 now where req: "req = (k0, now)" by force
  obtain b adm' where ra: "ref_allow w m k0 now adm = (b, adm')" by force
  have le: "t \<le> now" if "t \<in> set (adm k)" for k t
    using Cons.prems(2) [OF that] req by auto
  have adm': "adm' k = (if k = k0 \<and> b then adm k @ [now] else adm k)" for k
    using ra by (auto simp: ref_allow_def split: if_splits)
  have wb: "win_bounded w m (adm' k)" for k
    using ra Cons.prems(3) le win_bounded_snoc [of w m "adm k0" now]
    by (auto simp: ref_allow_def split: if_splits)
  have later: "\<forall>(k', t') \<in> set reqs. t \<le> t'" if "t \<in> set (adm' k)" for k t
    using that Cons.prems(1) Cons.prems(2) [of t k] by (auto simp: adm' req split: if_splits)
  have "win_bounded w m (adm' k @ admitted k reqs (ref_run w m adm' reqs))"
    by (rule Cons.IH) (use Cons.prems(1) later wb in \<open>auto\<close>)
  moreover have "adm' k @ admitted k reqs (ref_run w m adm' reqs)
      = adm k @ admitted k (req # reqs) (ref_run w m adm (req # reqs))"
    using ra by (auto simp: req adm' admitted_def)
  ultimately show ?case by simp
qed

section \<open>The contract of a keyed window limiter\<close>

locale key_window =
  fixes allow :: "'k \<Rightarrow> int \<Rightarrow> 's \<Rightarrow> (bool \<times> 's) option"
    and hist :: "'s \<Rightarrow> 'k \<Rightarrow> int list"
    and inv :: "int \<Rightarrow> int \<Rightarrow> 's \<Rightarrow> bool"
  assumes allow_step: "inv w m s \<Longrightarrow> \<forall>k. \<forall>t \<in> set (hist s k). t \<le> now \<Longrightarrow>
      \<exists>b s'. allow k now s = Some (b, s') \<and> inv w m s'
        \<and> ref_log_allow now w m (hist s k) = (b, hist s' k)
        \<and> (\<forall>k'. k' \<noteq> k \<longrightarrow> hist s' k' = hist s k'
               \<or> (hist s' k' = [] \<and> (\<forall>t \<in> set (hist s k'). t \<le> now - w)))"
begin

text \<open>\<open>agree\<close> relates the limiter's live events to the full history of the reference.\<close>

definition agree :: "int \<Rightarrow> int \<Rightarrow> 's \<Rightarrow> ('k \<Rightarrow> int list) \<Rightarrow> bool" where
  "agree w now s adm \<longleftrightarrow> (\<forall>k now'. now \<le> now' \<longrightarrow>
     filter (\<lambda>t. now' - w < t) (hist s k) = filter (\<lambda>t. now' - w < t) (adm k))"

lemma agree_later: "agree w now s adm \<Longrightarrow> now \<le> now' \<Longrightarrow> agree w now' s adm"
  by (auto simp: agree_def)

lemma filter_window_mono:
  assumes "(now :: int) \<le> now'"
  shows "filter (\<lambda>t. now' - w < t) (filter (\<lambda>t. now - w < t) xs) = filter (\<lambda>t. now' - w < t) xs"
  using assms by (induction xs) auto

lemma agree_step:
  assumes "inv w m s" and "\<forall>k. \<forall>t \<in> set (hist s k). t \<le> now" and "agree w now s adm"
  obtains b s' adm' where "allow k now s = Some (b, s')" and "inv w m s'"
    and "\<forall>k. \<forall>t \<in> set (hist s' k). t \<le> now"
    and "ref_allow w m k now adm = (b, adm')" and "agree w now s' adm'"
proof -
  obtain b s' where st: "allow k now s = Some (b, s')" "inv w m s'"
    "ref_log_allow now w m (hist s k) = (b, hist s' k)"
    and other: "\<forall>k'. k' \<noteq> k \<longrightarrow> hist s' k' = hist s k'
               \<or> (hist s' k' = [] \<and> (\<forall>t \<in> set (hist s k'). t \<le> now - w))"
    using allow_step [OF assms(1,2), of k] by blast
  have eq: "filter (\<lambda>t. now - w < t) (hist s k) = filter (\<lambda>t. now - w < t) (adm k)"
    using assms(3) by (simp add: agree_def)
  obtain adm' where ra: "ref_allow w m k now adm = (b, adm')"
    "adm' = (if b then adm(k := adm k @ [now]) else adm)"
    "hist s' k = filter (\<lambda>t. now - w < t) (hist s k) @ (if b then [now] else [])"
    using st(3) eq by (auto simp: ref_allow_def ref_log_allow_def Let_def split: if_splits)
  have "agree w now s' adm'"
    unfolding agree_def
  proof (intro allI impI)
    fix k' now' assume le: "now \<le> now'"
    have base: "filter (\<lambda>t. now' - w < t) (hist s k') = filter (\<lambda>t. now' - w < t) (adm k')"
      using assms(3) le by (simp add: agree_def)
    show "filter (\<lambda>t. now' - w < t) (hist s' k') = filter (\<lambda>t. now' - w < t) (adm' k')"
    proof (cases "k' = k")
      case True
      with ra base filter_window_mono [OF le] show ?thesis by simp
    next
      case False
      have "filter (\<lambda>t. now' - w < t) (hist s' k') = filter (\<lambda>t. now' - w < t) (hist s k')"
      proof (cases "hist s' k' = hist s k'")
        case neq: False
        with other False have "hist s' k' = []" and "\<forall>t \<in> set (hist s k'). t \<le> now - w" by auto
        with le have "filter (\<lambda>t. now' - w < t) (hist s k') = []" by (auto simp: filter_empty_conv)
        with \<open>hist s' k' = []\<close> show ?thesis by simp
      qed simp
      with False ra(2) base show ?thesis by simp
    qed
  qed
  moreover have "\<forall>t \<in> set (hist s' k'). t \<le> now" for k'
  proof (cases "k' = k")
    case True
    with ref_log_allow_set [OF st(3)] assms(2) show ?thesis by blast
  next
    case False
    with other assms(2) show ?thesis by fastforce
  qed
  ultimately show ?thesis using that st(1,2) ra(1) by blast
qed

lemma run_agree:
  assumes "inv w m s" and "agree w now s adm" and "\<forall>k. \<forall>t \<in> set (hist s k). t \<le> now"
    and "sorted (map snd reqs)" and "\<And>k t. (k, t) \<in> set reqs \<Longrightarrow> now \<le> t"
  shows "\<exists>s'. run_allow allow reqs s = Some (ref_run w m adm reqs, s') \<and> inv w m s'"
  using assms
proof (induction reqs arbitrary: s adm now)
  case Nil
  then show ?case by simp
next
  case (Cons req reqs)
  obtain k t where req: "req = (k, t)" by force
  have nt: "now \<le> t" using Cons.prems(5) req by auto
  have hl: "\<forall>k. \<forall>t' \<in> set (hist s k). t' \<le> t"
    using Cons.prems(3) nt by fastforce
  obtain b s' adm' where st: "allow k t s = Some (b, s')" "inv w m s'"
    "\<forall>k. \<forall>t' \<in> set (hist s' k). t' \<le> t"
    "ref_allow w m k t adm = (b, adm')" "agree w t s' adm'"
    using agree_step [where k = k, OF Cons.prems(1) hl agree_later [OF Cons.prems(2) nt]] by blast
  obtain s'' where "run_allow allow reqs s' = Some (ref_run w m adm' reqs, s'')" "inv w m s''"
    using Cons.IH [OF st(2,5,3)] Cons.prems(4) req by fastforce
  with st(1,4) show ?case by (auto simp: req)
qed

lemma run_ref:
  assumes "inv w m s" and "\<And>k. hist s k = []" and "sorted (map snd reqs)"
  shows "\<exists>s'. run_allow allow reqs s = Some (ref_run w m (\<lambda>_. []) reqs, s') \<and> inv w m s'"
proof (cases reqs)
  case Nil
  with assms show ?thesis by simp
next
  case (Cons r rs)
  have "snd r \<le> t" if "(k, t) \<in> set reqs" for k t
    using that assms(3) Cons by force
  moreover have "agree w (snd r) s (\<lambda>_. [])" using assms(2) by (simp add: agree_def)
  ultimately show ?thesis using run_agree [OF assms(1), of "snd r" "\<lambda>_. []" reqs] assms(2,3) by simp
qed

lemma run_window_bound:
  assumes "inv w m s" and "\<And>k. hist s k = []" and "sorted (map snd reqs)"
    and "run_allow allow reqs s = Some (bs, s')"
  shows "win_bounded w m (admitted k reqs bs)"
proof -
  have "bs = ref_run w m (\<lambda>_. []) reqs"
    using run_ref [OF assms(1-3)] assms(4) by auto
  with ref_run_bounded [of reqs "\<lambda>_. []" w m k] assms(3) show ?thesis
    by (simp add: win_bounded_def)
qed

end

section \<open>The code's limiter satisfies the contract\<close>

definition hist_of :: "'k slidingWindowLimiter \<Rightarrow> 'k \<Rightarrow> int list" where
  "hist_of r k = (case amap_get (sw_keys r) k of None \<Rightarrow> [] | Some l \<Rightarrow> log_live l)"

text \<open>
  \<open>lim_inv\<close> is the type invariant of the limiter; \<open>size_inv\<close> the bound on its map: it never holds
  more keys than the trigger of the next sweep.
\<close>

definition lim_inv :: "int \<Rightarrow> int \<Rightarrow> 'k slidingWindowLimiter \<Rightarrow> bool" where
  "lim_inv w m r \<longleftrightarrow> sw_window r = w \<and> sw_max r = m \<and> amap_ok (sw_keys r) \<and> (\<forall>(k, l) \<in> set (sw_keys r). log_inv l)"

definition size_inv :: "'k slidingWindowLimiter \<Rightarrow> bool" where
  "size_inv r \<longleftrightarrow> int (length (sw_keys r)) \<le> sw_sweepAt r \<and> sw_maxKeys r \<le> sw_sweepAt r \<and> int (length (sw_keys r)) \<le> sw_peak r"

lemma lim_inv_log: "lim_inv w m r \<Longrightarrow> amap_get (sw_keys r) k = Some l \<Longrightarrow> log_inv l"
  by (auto simp: lim_inv_def dest: amap_get_in_set)

lemma set_amap_put: "set (amap_put k v mp) \<subseteq> insert (k, v) (set mp)"
  by (induction mp) (auto simp: amap_put_def)

lemma lim_inv_put:
  assumes "lim_inv w m r" and "log_inv l"
  shows "lim_inv w m (r\<lparr>sw_keys := amap_put k l (sw_keys r)\<rparr>)"
  using assms set_amap_put [of k l "sw_keys r"] by (fastforce simp: lim_inv_def)

lemma evict_inv: "lim_inv w m r \<Longrightarrow> lim_inv w m (evictExpiredLocked now r)"
  by (auto simp: lim_inv_def evictExpiredLocked_def Let_def)

text \<open>A sweep drops exactly the keys whose events have all left the window.\<close>

lemma evict_hist:
  assumes "lim_inv w m r"
  shows "hist_of (evictExpiredLocked now r) k = hist_of r k
     \<or> (hist_of (evictExpiredLocked now r) k = [] \<and> (\<forall>t \<in> set (hist_of r k). t \<le> now - w))"
proof (cases "amap_get (sw_keys r) k")
  case None
  with assms show ?thesis
    by (simp add: hist_of_def evictExpiredLocked_def Let_def lim_inv_def amap_get_filter)
next
  case (Some l)
  with assms have "log_inv l" and "sw_window r = w" and "amap_ok (sw_keys r)"
    by (auto simp: lim_inv_log lim_inv_def)
  with Some show ?thesis
    by (auto simp: hist_of_def evictExpiredLocked_def Let_def amap_get_filter idle_live)
qed

lemma findLog_spec:
  assumes "lim_inv w m r" and "findLog key now r = (l, r1)"
  shows "lim_inv w m r1 \<and> log_inv l \<and> log_live l = hist_of r key
     \<and> (\<forall>k. k \<noteq> key \<longrightarrow> hist_of r1 k = hist_of r k
          \<or> (hist_of r1 k = [] \<and> (\<forall>t \<in> set (hist_of r k). t \<le> now - w)))"
proof (cases "amap_get (sw_keys r) key")
  case (Some l')
  with assms show ?thesis by (auto simp: findLog_def hist_of_def lim_inv_log)
next
  case None
  define r0 where "r0 = (if sw_sweepAt r \<le> int (length (sw_keys r)) \<or> sw_window r \<le> now - sw_lastSweep r
                         then evictExpiredLocked now r else r)"
  have r1: "l = new_eventLog" "r1 = (r0\<lparr>sw_keys := amap_put key new_eventLog (sw_keys r0)\<rparr>)
      \<lparr>sw_peak := max (sw_peak r0) (int (length (amap_put key new_eventLog (sw_keys r0))))\<rparr>"
    using assms(2) None by (auto simp: findLog_def r0_def Let_def)
  have "lim_inv w m r0" using assms(1) by (simp add: r0_def evict_inv)
  from lim_inv_put [OF this el.inv_new] have "lim_inv w m r1"
    unfolding r1(2) by (simp add: lim_inv_def)
  moreover have "hist_of r1 k = hist_of r0 k" if "k \<noteq> key" for k
    using that by (simp add: r1(2) hist_of_def)
  moreover have "hist_of r0 k = hist_of r k
          \<or> (hist_of r0 k = [] \<and> (\<forall>t \<in> set (hist_of r k). t \<le> now - w))" for k
    using evict_hist [OF assms(1), of now k] by (simp add: r0_def)
  ultimately show ?thesis
    using None by (simp add: r1(1) el.inv_new el.events_new hist_of_def)
qed

lemma allowLocked_step:
  assumes inv: "lim_inv w m r" and le: "\<forall>k. \<forall>t \<in> set (hist_of r k). t \<le> now"
  shows "\<exists>b r'. allowLocked grow key now r = Some (b, r') \<and> lim_inv w m r'
        \<and> ref_log_allow now w m (hist_of r key) = (b, hist_of r' key)
        \<and> (\<forall>k'. k' \<noteq> key \<longrightarrow> hist_of r' k' = hist_of r k'
               \<or> (hist_of r' k' = [] \<and> (\<forall>t \<in> set (hist_of r k'). t \<le> now - w)))"
proof -
  obtain l r1 where fl: "findLog key now r = (l, r1)" by force
  note spec = findLog_spec [OF inv fl]
  have "t \<le> now" if "t \<in> set (log_live l)" for t
    using that le spec by auto
  with spec obtain b l' where al: "log_allow grow now w m l = Some (b, l')" "log_inv l'"
    "ref_log_allow now w m (log_live l) = (b, log_live l')"
    using log_allow_ref by blast
  define r' where "r' = r1\<lparr>sw_keys := amap_put key l' (sw_keys r1)\<rparr>"
  have "sw_window r1 = w" "sw_max r1 = m" using spec by (simp_all add: lim_inv_def)
  with fl al(1) have "allowLocked grow key now r = Some (b, r')"
    by (simp add: allowLocked_def r'_def)
  moreover have "lim_inv w m r'" using spec al(2) by (simp add: r'_def lim_inv_put)
  moreover have "hist_of r' key = log_live l'" by (simp add: r'_def hist_of_def)
  moreover have "hist_of r' k = hist_of r1 k" if "k \<noteq> key" for k
    using that by (simp add: r'_def hist_of_def)
  ultimately show ?thesis using spec al(3) by simp
qed

interpretation sw: key_window "allowLocked grow" hist_of lim_inv for grow
  by unfold_locales (rule allowLocked_step)

lemma new_lim_inv: "lim_inv w m (newSlidingWindowLimiter m w mk)"
  and new_hist: "hist_of (newSlidingWindowLimiter m w mk) k = []"
  by (simp_all add: lim_inv_def newSlidingWindowLimiter_def hist_of_def)

section \<open>The map stays bounded\<close>

lemma new_size_inv: "0 \<le> mk \<Longrightarrow> size_inv (newSlidingWindowLimiter m w mk)"
  by (simp add: size_inv_def newSlidingWindowLimiter_def)

lemma evict_size_inv: "size_inv r \<Longrightarrow> size_inv (evictExpiredLocked now r)"
proof -
  assume "size_inv r"
  moreover obtain n where "int (length (filter (\<lambda>(k, l). \<not> log_idle (now - sw_window r) l) (sw_keys r))) = n"
    and "n \<le> int (length (sw_keys r))"
    by (simp add: length_filter_le)
  ultimately show ?thesis by (auto simp: size_inv_def evictExpiredLocked_def Let_def)
qed

lemma findLog_size:
  assumes "size_inv r" and "1 \<le> sw_maxKeys r" and "findLog key now r = (l, r1)"
  shows "size_inv r1 \<and> sw_maxKeys r1 = sw_maxKeys r \<and> amap_get (sw_keys r1) key \<noteq> None"
proof (cases "amap_get (sw_keys r) key")
  case (Some l')
  with assms show ?thesis by (simp add: findLog_def)
next
  case None
  define r0 where "r0 = (if sw_sweepAt r \<le> int (length (sw_keys r)) \<or> sw_window r \<le> now - sw_lastSweep r
                         then evictExpiredLocked now r else r)"
  have si: "size_inv r0" using assms(1) by (simp add: r0_def evict_size_inv)
  have lt: "int (length (sw_keys r0)) < sw_sweepAt r0" and mk: "sw_maxKeys r0 = sw_maxKeys r"
    using assms(1,2) by (auto simp: r0_def size_inv_def evictExpiredLocked_def Let_def)
  have r1: "r1 = r0\<lparr>sw_keys := amap_put key new_eventLog (sw_keys r0),
      sw_peak := max (sw_peak r0) (int (length (amap_put key new_eventLog (sw_keys r0))))\<rparr>"
    using assms(3) None by (auto simp: findLog_def r0_def Let_def)
  have "int (length (amap_put key new_eventLog (sw_keys r0))) \<le> sw_sweepAt r0"
    using lt by (simp add: length_amap_put)
  with si mk show ?thesis by (simp add: r1 size_inv_def)
qed

lemma allowLocked_size:
  assumes "size_inv r" and "1 \<le> sw_maxKeys r" and "allowLocked grow key now r = Some (b, r')"
  shows "size_inv r' \<and> sw_maxKeys r' = sw_maxKeys r"
proof -
  obtain l r1 where fl: "findLog key now r = (l, r1)" by force
  note sz = findLog_size [OF assms(1,2) fl]
  then obtain l0 where "amap_get (sw_keys r1) key = Some l0" by blast
  then have "length (amap_put key v (sw_keys r1)) = length (sw_keys r1)" for v
    by (simp add: length_amap_put)
  with sz assms(3) fl show ?thesis
    by (auto simp: allowLocked_def size_inv_def split: option.splits prod.splits)
qed

end
