(* ===== verification/Rate_Limit.thy ===== *)
theory Rate_Limit
  imports Complex_Main Net_Addr Window_Limiter
begin

text \<open>
  The four-tier limiter of \<^verbatim>\<open>src/ratelimit/ratelimit.go\<close>: token buckets per source address (tier IP) and
  per (source, group) (tier group), sliding windows per (HashKey, SeqNum) (tier sequence) and per
  (source, HashKey) (tier chain).  The token bucket itself is \<^verbatim>\<open>golang.org/x/time/rate\<close>, which is not part of
  the repository: it is the parameter \<open>rate_pkg\<close>, a constructor and the \<^verbatim>\<open>Allow\<close> step at a clock reading.
  Rates are finite \<^verbatim>\<open>float64\<close> values, modelled as rationals.
\<close>

section \<open>Token buckets\<close>

record 'l rate_pkg =
  NewLimiter :: "rat \<Rightarrow> int \<Rightarrow> 'l"
  RLAllow :: "int \<Rightarrow> 'l \<Rightarrow> bool \<times> 'l"

record ('k, 'l) tokenBucketLimiter =
  tb_limit :: "('k, 'l) amap"
  tb_rate :: rat
  tb_burst :: int

definition newTokenBucketLimiter :: "rat \<Rightarrow> int \<Rightarrow> ('k, 'l) tokenBucketLimiter" where
  "newTokenBucketLimiter tokensPerSec b = \<lparr>tb_limit = [], tb_rate = tokensPerSec, tb_burst = b\<rparr>"

definition tb_Allow :: "'l rate_pkg \<Rightarrow> 'k \<Rightarrow> int \<Rightarrow> ('k, 'l) tokenBucketLimiter
    \<Rightarrow> bool \<times> ('k, 'l) tokenBucketLimiter" where
  "tb_Allow rp key now t =
    (let l = (case amap_get (tb_limit t) key of Some l \<Rightarrow> l | None \<Rightarrow> NewLimiter rp (tb_rate t) (tb_burst t));
         (b, l') = RLAllow rp now l
     in (b, t\<lparr>tb_limit := amap_put key l' (tb_limit t)\<rparr>))"

section \<open>Keys and levels\<close>

datatype Level = LevelIP | LevelChain | LevelSequence | LevelGroup

fun level_string :: "Level \<Rightarrow> string" where
  "level_string LevelIP = ''ip''"
| "level_string LevelChain = ''chain''"
| "level_string LevelSequence = ''sequence''"
| "level_string LevelGroup = ''group''"

record seqKey =
  sk_hashKey :: u64
  sk_seqNum :: u64

record chainKey =
  ck_ip :: bytes
  ck_hashKey :: u64

record groupKey =
  gk_ip :: bytes
  gk_groupIdx :: u32

definition ipKey :: "bytes \<Rightarrow> bytes" where
  "ipKey ip = As16 (AddrFromSlice ip)"

section \<open>The limiter\<close>

record 'l Limiter =
  ipLimiter :: "(string, 'l) tokenBucketLimiter"
  chainLimiter :: "chainKey slidingWindowLimiter"
  sequenceLimiter :: "seqKey slidingWindowLimiter"
  groupLimiter :: "(groupKey, 'l) tokenBucketLimiter"

record RLConfig =
  IPRate :: rat
  IPBurst :: int
  SenderRate :: rat
  SenderWindow :: int
  ChainRate :: rat
  ChainWindow :: int
  SequenceMax :: int
  SequenceWindow :: int
  GroupRate :: rat
  GroupBurst :: int

definition go_second :: int where "go_second = 1000000000"
definition go_minute :: int where "go_minute = 60 * go_second"

text \<open>\<^verbatim>\<open>int(f)\<close> truncates toward zero.\<close>

definition go_int :: "rat \<Rightarrow> int" where
  "go_int q = (if 0 \<le> q then \<lfloor>q\<rfloor> else \<lceil>q\<rceil>)"

definition chainMax :: "RLConfig \<Rightarrow> int" where
  "chainMax cfg =
    (let cr = (if ChainRate cfg = 0 \<and> SenderRate cfg \<noteq> 0 then SenderRate cfg else ChainRate cfg);
         m = go_int cr
     in if m \<le> 0 then 500 else m)"

definition chainWin :: "RLConfig \<Rightarrow> int" where
  "chainWin cfg =
    (let cw = (if ChainWindow cfg \<le> 0 \<and> 0 < SenderWindow cfg then SenderWindow cfg else ChainWindow cfg)
     in if cw \<le> 0 then go_minute else cw)"

definition newLimiter :: "RLConfig \<Rightarrow> 'l Limiter" where
  "newLimiter cfg =
    (let seqWin = (if SequenceWindow cfg \<le> 0 then go_minute else SequenceWindow cfg);
         groupRate = (if GroupRate cfg \<le> 0 then 200 else GroupRate cfg);
         groupBurst = (if GroupBurst cfg \<le> 0 then 50 else GroupBurst cfg)
     in \<lparr>ipLimiter = newTokenBucketLimiter (IPRate cfg) (IPBurst cfg),
         chainLimiter = newSlidingWindowLimiter (chainMax cfg) (chainWin cfg) maxWindowKeys,
         sequenceLimiter = newSlidingWindowLimiter (SequenceMax cfg) seqWin maxWindowKeys,
         groupLimiter = newTokenBucketLimiter groupRate groupBurst\<rparr>)"

text \<open>
  \<^verbatim>\<open>Allow\<close>: \<open>tIP\<close> and \<open>tSeq\<close> are the clock readings of the two tiers.  The result is \<^verbatim>\<open>(true, "")\<close>, here
  \<open>None\<close>, or the level that refused; the outer option is a run-time panic of the event log.
\<close>

definition Limiter_Allow :: "'l rate_pkg \<Rightarrow> (nat \<Rightarrow> nat) \<Rightarrow> bytes \<Rightarrow> u64 \<Rightarrow> u64 \<Rightarrow> int \<Rightarrow> int
    \<Rightarrow> 'l Limiter \<Rightarrow> (Level option \<times> 'l Limiter) option" where
  "Limiter_Allow rp grow srcIP hashKey startSeq tIP tSeq r =
    (let (ok, ipl) = tb_Allow rp (IP_String srcIP) tIP (ipLimiter r);
         r1 = r\<lparr>ipLimiter := ipl\<rparr>
     in if \<not> ok then Some (Some LevelIP, r1)
        else (case allowLocked grow \<lparr>sk_hashKey = hashKey, sk_seqNum = startSeq\<rparr> tSeq (sequenceLimiter r1) of
                None \<Rightarrow> None
              | Some (b, sl) \<Rightarrow> Some (if b then None else Some LevelSequence, r1\<lparr>sequenceLimiter := sl\<rparr>)))"

definition AllowChain :: "(nat \<Rightarrow> nat) \<Rightarrow> bytes \<Rightarrow> u64 \<Rightarrow> int \<Rightarrow> 'l Limiter \<Rightarrow> (bool \<times> 'l Limiter) option" where
  "AllowChain grow srcIP hashKey now r =
    (if hashKey = 0 then Some (True, r)
     else (case allowLocked grow \<lparr>ck_ip = ipKey srcIP, ck_hashKey = hashKey\<rparr> now (chainLimiter r) of
             None \<Rightarrow> None
           | Some (b, cl) \<Rightarrow> Some (b, r\<lparr>chainLimiter := cl\<rparr>)))"

definition AllowGroup :: "'l rate_pkg \<Rightarrow> bytes \<Rightarrow> u32 \<Rightarrow> int \<Rightarrow> 'l Limiter \<Rightarrow> bool \<times> 'l Limiter" where
  "AllowGroup rp srcIP groupIdx now r =
    (let (b, gl) = tb_Allow rp \<lparr>gk_ip = ipKey srcIP, gk_groupIdx = groupIdx\<rparr> now (groupLimiter r)
     in (b, r\<lparr>groupLimiter := gl\<rparr>))"

section \<open>Runs of a token-bucket limiter\<close>

fun tb_run :: "'l rate_pkg \<Rightarrow> ('k \<times> int) list \<Rightarrow> ('k, 'l) tokenBucketLimiter \<Rightarrow> bool list" where
  "tb_run rp [] t = []"
| "tb_run rp ((k, now) # reqs) t = (let (b, t') = tb_Allow rp k now t in b # tb_run rp reqs t')"

fun rl_run :: "'l rate_pkg \<Rightarrow> int list \<Rightarrow> 'l \<Rightarrow> bool list" where
  "rl_run rp [] l = []"
| "rl_run rp (now # tms) l = (let (b, l') = RLAllow rp now l in b # rl_run rp tms l')"

text \<open>What the requests on one key see: their own clock readings and their own decisions.\<close>

definition on_key :: "'k \<Rightarrow> ('k \<times> int) list \<Rightarrow> int list" where
  "on_key k reqs = map snd (filter (\<lambda>(k', t). k' = k) reqs)"

definition decisions :: "'k \<Rightarrow> ('k \<times> int) list \<Rightarrow> bool list \<Rightarrow> bool list" where
  "decisions k reqs bs = map snd (filter (\<lambda>((k', t), b). k' = k) (zip reqs bs))"

section \<open>Lemmas: token buckets\<close>

definition bucket_of :: "'l rate_pkg \<Rightarrow> ('k, 'l) tokenBucketLimiter \<Rightarrow> 'k \<Rightarrow> 'l" where
  "bucket_of rp t k = (case amap_get (tb_limit t) k of Some l \<Rightarrow> l | None \<Rightarrow> NewLimiter rp (tb_rate t) (tb_burst t))"

lemma tb_Allow_bucket:
  assumes "tb_Allow rp k now t = (b, t')"
  shows "RLAllow rp now (bucket_of rp t k) = (b, bucket_of rp t' k)"
    and "k' \<noteq> k \<Longrightarrow> bucket_of rp t' k' = bucket_of rp t k'"
  using assms by (auto simp: tb_Allow_def bucket_of_def Let_def split: prod.splits option.splits)

lemma tb_run_bucket: "decisions k reqs (tb_run rp reqs t) = rl_run rp (on_key k reqs) (bucket_of rp t k)"
proof (induction reqs arbitrary: t)
  case Nil
  then show ?case by (simp add: decisions_def on_key_def)
next
  case (Cons req reqs)
  obtain k0 now where req: "req = (k0, now)" by force
  obtain b t' where al: "tb_Allow rp k0 now t = (b, t')" by force
  note bk = tb_Allow_bucket [OF al]
  show ?case
  proof (cases "k0 = k")
    case True
    with Cons.IH [of t'] bk(1) al req show ?thesis
      by (simp add: decisions_def on_key_def)
  next
    case False
    with Cons.IH [of t'] bk(2) [of k] al req show ?thesis
      by (simp add: decisions_def on_key_def)
  qed
qed

section \<open>Lemmas: sliding windows are key-local\<close>

lemma ref_run_local:
  "adm k = adm0 k \<Longrightarrow>
   decisions k reqs (ref_run w m adm reqs) = ref_run w m adm0 (map (Pair k) (on_key k reqs))"
proof (induction reqs arbitrary: adm adm0)
  case Nil
  then show ?case by (simp add: decisions_def on_key_def)
next
  case (Cons req reqs)
  obtain k0 now where req: "req = (k0, now)" by force
  obtain b adm' where ra: "ref_allow w m k0 now adm = (b, adm')" by force
  show ?case
  proof (cases "k0 = k")
    case True
    obtain b0 adm0' where ra0: "ref_allow w m k now adm0 = (b0, adm0')" by force
    with ra True Cons.prems have "b0 = b" and "adm' k = adm0' k"
      by (auto simp: ref_allow_def split: if_splits)
    with True Cons.IH [of adm' adm0'] ra ra0 req show ?thesis
      by (simp add: decisions_def on_key_def)
  next
    case False
    with ra Cons.prems have "adm' k = adm0 k" by (auto simp: ref_allow_def split: if_splits)
    with False Cons.IH [of adm' adm0] ra req show ?thesis
      by (simp add: decisions_def on_key_def)
  qed
qed

section \<open>Properties\<close>

text \<open>
  C3: The sliding window is exact.  From a fresh limiter, on requests in clock order, the limiter of the code makes the decisions of
  the specification that keeps every admitted event for ever and admits a request when fewer than \<^verbatim>\<open>max\<close> events of its key lie within the
  last window: expiry by prefix, compaction, shrinking and sweeping of the key map change no decision, and the code never indexes out of range.
\<close>

theorem window_exact:
  assumes "sorted (map snd reqs)"
  shows "\<exists>r'. run_allow (allowLocked grow) reqs (newSlidingWindowLimiter m w mk) = Some (ref_run w m (\<lambda>_. []) reqs, r')"
  using sw.run_ref [OF new_lim_inv new_hist assms] by blast

text \<open>
  Never more than \<^verbatim>\<open>max\<close> in a window.  In any window of the configured length, wherever it starts, a key gets at most \<^verbatim>\<open>max\<close>
  requests admitted.
\<close>

lemma window_bound:
  assumes "sorted (map snd reqs)"
    and "run_allow (allowLocked grow) reqs (newSlidingWindowLimiter m w mk) = Some (bs, r')"
  shows "int (length (filter (\<lambda>t. e - w < t \<and> t \<le> e) (admitted k reqs bs))) \<le> max 0 m"
  using sw.run_window_bound [OF new_lim_inv new_hist assms] by (simp add: win_bounded_def)



text \<open>
  The token-bucket tiers isolate sources.  In any interleaving of requests on many keys, the requests on one key are decided by one
  \<^verbatim>\<open>rate.Limiter\<close> of the configured rate and burst that only they touch.
\<close>

lemma token_bucket_isolated:
  "decisions k reqs (tb_run rp reqs (newTokenBucketLimiter q b)) = rl_run rp (on_key k reqs) (NewLimiter rp q b)"
  by (simp add: tb_run_bucket bucket_of_def newTokenBucketLimiter_def)

text \<open>
  One source, one bucket.  Two addresses share the chain and group buckets exactly when they are the same address once an IPv4
  address is written in its IPv4-mapped form, and an IPv4 address has the same per-IP key in both forms.
\<close>

lemma ip_key_forms:
  assumes "length a \<in> {4, 16}" and "length b \<in> {4, 16}"
  shows "(ipKey a = ipKey b \<longleftrightarrow> To16 a = To16 b) \<and> (To16 a = To16 b \<longrightarrow> IP_String a = IP_String b)"
proof -
  have key: "To16 ip = Some (ipKey ip)" if "length ip \<in> {4, 16}" for ip
    using that by (auto simp: To16_def ipKey_def AddrFromSlice_def)
  have str: "IP_String ip = IP_String (ipKey ip)" if "length ip \<in> {4, 16}" for ip
    using that IP_String_mapped [of ip] by (auto simp: ipKey_def AddrFromSlice_def)
  show ?thesis using key [OF assms(1)] key [OF assms(2)] str [OF assms(1)] str [OF assms(2)] by auto
qed

section \<open>Concrete instances\<close>

definition ex_reqs :: "(nat \<times> int) list" where
  "ex_reqs = [(1, 1), (1, 2), (2, 3), (1, 4), (1, 12)]"

theorem window_exact_witness:
  "\<exists>r'. run_allow (allowLocked (\<lambda>n. 2 * n)) ex_reqs (newSlidingWindowLimiter 2 10 5) = Some ([True, True, True, False, True], r')"
proof -
  have "ref_run 10 2 (\<lambda>_. []) ex_reqs = [True, True, True, False, True]" by code_simp
  with window_exact [of ex_reqs "\<lambda>n. 2 * n" 2 10 5] show ?thesis by (simp add: ex_reqs_def)
qed


definition ex_seqs :: "(seqKey \<times> int) list" where
  "ex_seqs = [(\<lparr>sk_hashKey = 1, sk_seqNum = 1\<rparr>, 1), (\<lparr>sk_hashKey = 2, sk_seqNum = 1\<rparr>, 2), (\<lparr>sk_hashKey = 1, sk_seqNum = 1\<rparr>, 3)]"


end
