(* ===== verification/Config_Load.thy ===== *)
theory Config_Load
  imports Control_Group Rate_Limit
begin

text \<open>
  Configuration, \<^verbatim>\<open>src/config/config.go\<close>: defaults from the environment, the values the command line leaves behind, and the
  validation and derivation that \<^verbatim>\<open>Load\<close> does with them.  \<^verbatim>\<open>flag.Parse\<close> is an arbitrary change of the registered values
  together with the set of flags it visited.  Durations are nanoseconds.  The parser of floating-point numbers is a
  parameter; the fraction of a duration is computed exactly.
\<close>

section \<open>Environment\<close>

definition envStr :: "(string \<Rightarrow> string) \<Rightarrow> string \<Rightarrow> string \<Rightarrow> string" where
  "envStr getenv key def = (if getenv key \<noteq> [] then getenv key else def)"

definition env_parsed :: "(string \<Rightarrow> 'v option) \<Rightarrow> (string \<Rightarrow> string) \<Rightarrow> string \<Rightarrow> 'v \<Rightarrow> 'v" where
  "env_parsed parse getenv key def =
    (if getenv key \<noteq> [] then (case parse (getenv key) of Some v \<Rightarrow> v | None \<Rightarrow> def) else def)"

definition envInt :: "(string \<Rightarrow> string) \<Rightarrow> string \<Rightarrow> int \<Rightarrow> int" where
  "envInt = env_parsed Atoi"

definition envBool :: "(string \<Rightarrow> string) \<Rightarrow> string \<Rightarrow> bool \<Rightarrow> bool" where
  "envBool = env_parsed ParseBool"

definition envFloat :: "(string \<Rightarrow> rat option) \<Rightarrow> (string \<Rightarrow> string) \<Rightarrow> string \<Rightarrow> rat \<Rightarrow> rat" where
  "envFloat ParseFloat = env_parsed ParseFloat"

text \<open>\<^verbatim>\<open>time.ParseDuration\<close>: a sequence of decimal numbers with units.\<close>

definition unitMap :: "(string, int) amap" where
  "unitMap = [(''ns'', 1), (''us'', 1000), (''ms'', 1000000), (''s'', 1000000000), (''m'', 60000000000), (''h'', 3600000000000)]"

definition is_digit :: "char \<Rightarrow> bool" where "is_digit c \<longleftrightarrow> CHR ''0'' \<le> c \<and> c \<le> CHR ''9''"

definition dec_val :: "string \<Rightarrow> int" where
  "dec_val s = (case digits_val 10 0 s of Some n \<Rightarrow> n | None \<Rightarrow> 0)"

text \<open>One number with its unit, as nanoseconds, and the rest of the text.\<close>

definition duration_item :: "string \<Rightarrow> (int \<times> string) option" where
  "duration_item s =
    (let ip = takeWhile is_digit s; r1 = dropWhile is_digit s;
         dot = (r1 \<noteq> [] \<and> hd r1 = CHR ''.'');
         r2 = (if dot then tl r1 else r1);
         fp = (if dot then takeWhile is_digit r2 else []);
         r3 = (if dot then dropWhile is_digit r2 else r2);
         u = takeWhile (\<lambda>c. c \<noteq> CHR ''.'' \<and> \<not> is_digit c) r3;
         r4 = dropWhile (\<lambda>c. c \<noteq> CHR ''.'' \<and> \<not> is_digit c) r3
     in if ip = [] \<and> fp = [] then None
        else case amap_get unitMap u of
          None \<Rightarrow> None
        | Some scale \<Rightarrow>
            (let v = dec_val ip * scale + dec_val fp * scale div 10 ^ length fp
             in if dec_val ip \<le> 2 ^ 63 div scale \<and> v \<le> 2 ^ 63 then Some (v, r4) else None))"

fun duration_items :: "nat \<Rightarrow> string \<Rightarrow> int \<Rightarrow> int option" where
  "duration_items 0 s d = (if s = [] then Some d else None)"
| "duration_items (Suc fuel) s d =
    (if s = [] then Some d
     else case duration_item s of
       None \<Rightarrow> None
     | Some (v, r) \<Rightarrow> if d + v \<le> 2 ^ 63 then duration_items fuel r (d + v) else None)"

text \<open>Every item takes at least one character, so the length of the text is fuel enough.\<close>

lemma duration_item_shrinks: "duration_item s = Some (v, r) \<Longrightarrow> length r < length s"
proof -
  assume a: "duration_item s = Some (v, r)"
  define r1 where "r1 = dropWhile is_digit s"
  define r2 where "r2 = (if r1 \<noteq> [] \<and> hd r1 = CHR ''.'' then tl r1 else r1)"
  define r3 where "r3 = (if r1 \<noteq> [] \<and> hd r1 = CHR ''.'' then dropWhile is_digit r2 else r2)"
  have r: "r = dropWhile (\<lambda>c. c \<noteq> CHR ''.'' \<and> \<not> is_digit c) r3"
    and u: "takeWhile (\<lambda>c. c \<noteq> CHR ''.'' \<and> \<not> is_digit c) r3 \<noteq> []"
    using a unfolding duration_item_def Let_def r1_def [symmetric] r2_def [symmetric] r3_def [symmetric]
    by (auto split: if_splits option.splits simp: unitMap_def amap_get_def)
  have "length r + length (takeWhile (\<lambda>c. c \<noteq> CHR ''.'' \<and> \<not> is_digit c) r3) = length r3"
    unfolding r by (metis takeWhile_dropWhile_id length_append add.commute)
  with u have "length r < length r3" by (cases "takeWhile (\<lambda>c. c \<noteq> CHR ''.'' \<and> \<not> is_digit c) r3") auto
  moreover have "length r3 \<le> length r2" by (simp add: r3_def length_dropWhile_le)
  moreover have "length r2 \<le> length r1" by (simp add: r2_def)
  moreover have "length r1 \<le> length s" by (simp add: r1_def length_dropWhile_le)
  ultimately show "length r < length s" by simp
qed

lemma duration_fuel: "length s \<le> n \<Longrightarrow> duration_items n s d = duration_items (length s) s d"
proof (induction s arbitrary: n d rule: length_induct)
  case (1 s)
  show ?case
  proof (cases "s = []")
    case False
    then obtain m k where n: "n = Suc m" and k: "length s = Suc k" using 1(2) by (cases n; cases "length s") auto
    have "duration_items m r e = duration_items k r e" if "duration_item s = Some (v, r)" for v r e
    proof -
      have "length r < length s" using duration_item_shrinks [OF that] .
      with 1 n k show ?thesis by (metis (no_types) less_Suc_eq_le order_trans Suc_le_mono)
    qed
    with False show ?thesis unfolding n k by (auto split: option.splits)
  qed (cases n; simp)
qed

definition ParseDuration :: "string \<Rightarrow> int option" where
  "ParseDuration s =
    (let signed = (s \<noteq> [] \<and> (hd s = CHR ''-'' \<or> hd s = CHR ''+''));
         neg = (s \<noteq> [] \<and> hd s = CHR ''-'');
         r = (if signed then tl s else s)
     in if r = ''0'' then Some 0
        else if r = [] then None
        else case duration_items (length r) r 0 of
          None \<Rightarrow> None
        | Some d \<Rightarrow> if neg then Some (- d) else if d < 2 ^ 63 then Some d else None)"

definition envDuration :: "(string \<Rightarrow> string) \<Rightarrow> string \<Rightarrow> int \<Rightarrow> int" where
  "envDuration = env_parsed ParseDuration"

section \<open>Helpers\<close>

definition splitCSV :: "string \<Rightarrow> string list" where
  "splitCSV s = (if s = [] then [] else filter (\<lambda>p. p \<noteq> []) (map TrimSpace (Split CHR '','' s)))"

definition parseGroupID :: "string \<Rightarrow> string + u16" where
  "parseGroupID str =
    (let s = TrimSpace str in
     if s = [] then Inl ''empty value''
     else
       (let hex = HasPrefix (ToLower s) ''0x'';
            body = (if hex then drop 2 s else s);
            base = (if hex \<or> ParseUint s 10 16 = None then 16 else 10)
        in case ParseUint body base 16 of None \<Rightarrow> Inl ''invalid group id'' | Some n \<Rightarrow> Inr (of_int n)))"

section \<open>Configuration\<close>

text \<open>
  \<^verbatim>\<open>Config\<close> in three layers of fields, in the order of the struct: what is received, cached and served; retransmission, proxying
  and rate limits; runtime, observability, beacon and responses.
\<close>

record ServeConfig =
  MCIface :: string
  ListenPort :: int
  ShardBits :: u64
  NumGroups :: u32
  MCScope :: string
  MCPrefix :: u16
  MCGroupID :: u16
  TeeListen :: "(Addr \<times> u16) option"
  MCJoinEnabled :: bool
  SourceMode :: string
  BindSource :: string
  SSMBootstrapManifest :: "string list"
  SSMBootstrapBeacon :: "string list"
  SSMBootstrapSubtreeAnn :: "string list"
  SSMPublishersStatic :: "string list"
  SSMBootstrapRefresh :: int
  CacheBackend :: string
  RedisAddr :: string
  AeroHosts :: "string list"
  AeroNamespace :: string
  AeroSet :: string
  CacheDialTimeout :: int
  CacheOpTimeout :: int
  CacheTTL :: int
  CacheMaxKeys :: int
  CacheMaxBytes :: int
  CacheTTLTx :: int
  CacheTTLBlock :: int
  CacheTTLSubtree :: int
  CacheTTLAnchor :: int
  CacheTTLBEEF :: int
  BEEFEnabled :: bool
  BEEFShardBits :: u64
  NACKPort :: int
  NACKWorkers :: int

record RepairConfig = ServeConfig +
  EgressIfaces :: "string list"
  EgressPort :: int
  DedupWindow :: int
  EgressMulticastLoop :: bool
  ProxyEnabled :: bool
  UpstreamRetryEndpoints :: "string list"
  ProxyTimeout :: int
  ProxyMaxEndpoints :: int
  ProxyDedupWindow :: int
  ProxyWorkers :: int
  ProxyQueue :: int
  RLIPRate :: rat
  RLIPBurst :: int
  RLSenderRate :: rat
  RLSenderWindow :: int
  RLChainRate :: rat
  RLChainWindow :: int
  RLSequenceMax :: int
  RLSequenceWindow :: int
  RLGroupRate :: rat
  RLGroupBurst :: int

record Config = RepairConfig +
  NumWorkers :: int
  RecvBufBytes :: int
  cf_QueueDepth :: int
  IngressProcs :: int
  Debug :: bool
  DrainTimeout :: int
  MetricsAddr :: string
  InstanceID :: string
  OTLPEndpoint :: string
  OTLPInterval :: int
  LogFormat :: string
  LogLevel :: string
  TraceSampling :: rat
  BeaconEnabled :: bool
  ControlGroupCompat :: string
  BeaconTier :: u64
  BeaconPreference :: u64
  BeaconInterval :: int
  BeaconScope :: string
  BeaconScopeByte :: byte
  BeaconFlagsUnicast :: bool
  BeaconFlagsMulticast :: bool
  BeaconFlagsDraining :: bool
  BeaconNACKAddr :: string
  SubtreeDataEnabled :: bool
  SuppressACK :: bool
  SuppressMISS :: bool
  ThrottleResponse :: bool

text \<open>Flags that \<^verbatim>\<open>Load\<close> keeps in variables of its own until it has validated them.\<close>

record flag_vars =
  v_teeListen :: string
  v_aeroHosts :: string
  v_beefBits :: u64
  v_egressFlag :: string
  v_upstreamFlag :: string
  v_groupIDFlag :: string
  v_ssmBootstrapManifest :: string
  v_ssmBootstrapBeacon :: string
  v_ssmBootstrapSubtreeAnn :: string
  v_ssmPublishersStatic :: string
  v_otlpInterval :: int
  v_bits :: u64
  v_beaconTier :: u64
  v_beaconPref :: u64

record load_env =
  Getenv :: "string \<Rightarrow> string"
  ParseFloat :: "string \<Rightarrow> rat option"
  InterfaceByName :: "string \<Rightarrow> bool"
  NumCPU :: int
  GOOS_linux :: bool

definition defaultCacheTTLTx :: int where "defaultCacheTTLTx = 60 * go_second"
definition defaultCacheTTLBlock :: int where "defaultCacheTTLBlock = 10 * go_minute"
definition defaultCacheTTLSubtree :: int where "defaultCacheTTLSubtree = 5 * go_minute"
definition defaultCacheTTLAnchor :: int where "defaultCacheTTLAnchor = 2 * go_minute"
definition defaultCacheTTLBEEF :: int where "defaultCacheTTLBEEF = 60 * go_second"

lemmas default_ttls = defaultCacheTTLTx_def defaultCacheTTLBlock_def defaultCacheTTLSubtree_def defaultCacheTTLAnchor_def
  defaultCacheTTLBEEF_def

text \<open>
  The values registered with package \<^verbatim>\<open>flag\<close> before it parses the command line.  Fields that no flag is bound to have
  Go's zero value.
\<close>

definition serve_defaults :: "load_env \<Rightarrow> ServeConfig" where
  "serve_defaults E =
    \<lparr>MCIface = envStr (Getenv E) ''MC_IFACE'' ''eth0'', ListenPort = envInt (Getenv E) ''LISTEN_PORT'' 9001,
     ShardBits = 0, NumGroups = 0, MCScope = envStr (Getenv E) ''MC_SCOPE'' ''site'', MCPrefix = 0, MCGroupID = 0,
     TeeListen = None, MCJoinEnabled = envBool (Getenv E) ''MC_JOIN_ENABLED'' True,
     SourceMode = envStr (Getenv E) ''SOURCE_MODE'' ''asm'', BindSource = envStr (Getenv E) ''BIND_SOURCE'' [],
     SSMBootstrapManifest = [], SSMBootstrapBeacon = [], SSMBootstrapSubtreeAnn = [], SSMPublishersStatic = [],
     SSMBootstrapRefresh = envDuration (Getenv E) ''SSM_BOOTSTRAP_REFRESH'' (30 * go_second),
     CacheBackend = envStr (Getenv E) ''CACHE_BACKEND'' ''memory'', RedisAddr = envStr (Getenv E) ''REDIS_ADDR'' [],
     AeroHosts = [], AeroNamespace = envStr (Getenv E) ''AEROSPIKE_NAMESPACE'' ''cache'',
     AeroSet = envStr (Getenv E) ''AEROSPIKE_SET'' ''bre'',
     CacheDialTimeout = envDuration (Getenv E) ''CACHE_DIAL_TIMEOUT'' go_second,
     CacheOpTimeout = envDuration (Getenv E) ''CACHE_OP_TIMEOUT'' go_second,
     CacheTTL = envDuration (Getenv E) ''CACHE_TTL'' (60 * go_second),
     CacheMaxKeys = envInt (Getenv E) ''CACHE_MAX_KEYS'' 0, CacheMaxBytes = envInt (Getenv E) ''CACHE_MAX_BYTES'' 0,
     CacheTTLTx = envDuration (Getenv E) ''CACHE_TTL_TX'' defaultCacheTTLTx,
     CacheTTLBlock = envDuration (Getenv E) ''CACHE_TTL_BLOCK'' defaultCacheTTLBlock,
     CacheTTLSubtree = envDuration (Getenv E) ''CACHE_TTL_SUBTREE'' defaultCacheTTLSubtree,
     CacheTTLAnchor = envDuration (Getenv E) ''CACHE_TTL_ANCHOR'' defaultCacheTTLAnchor,
     CacheTTLBEEF = envDuration (Getenv E) ''CACHE_TTL_BEEF'' defaultCacheTTLBEEF,
     BEEFEnabled = envBool (Getenv E) ''BEEF_ENABLED'' False, BEEFShardBits = 0,
     NACKPort = envInt (Getenv E) ''NACK_PORT'' 9300, NACKWorkers = envInt (Getenv E) ''NACK_WORKERS'' (NumCPU E)\<rparr>"

definition repair_defaults :: "load_env \<Rightarrow> RepairConfig" where
  "repair_defaults E = ServeConfig.extend (serve_defaults E) (RepairConfig.fields
     [] (envInt (Getenv E) ''EGRESS_PORT'' 9001) (envDuration (Getenv E) ''DEDUP_WINDOW'' (60 * go_second))
     (envBool (Getenv E) ''EGRESS_MULTICAST_LOOP'' False) (envBool (Getenv E) ''PROXY_ENABLED'' False) []
     (envDuration (Getenv E) ''PROXY_TIMEOUT'' 300000000) (envInt (Getenv E) ''PROXY_MAX_ENDPOINTS'' 0)
     (envDuration (Getenv E) ''PROXY_DEDUP_WINDOW'' (60 * go_second)) (envInt (Getenv E) ''PROXY_WORKERS'' 4)
     (envInt (Getenv E) ''PROXY_QUEUE'' 1024)
     (envFloat (ParseFloat E) (Getenv E) ''RL_IP_RATE'' 100) (envInt (Getenv E) ''RL_IP_BURST'' 10)
     (envFloat (ParseFloat E) (Getenv E) ''RL_SENDER_RATE'' 0) (envDuration (Getenv E) ''RL_SENDER_WINDOW'' 0)
     (envFloat (ParseFloat E) (Getenv E) ''RL_CHAIN_RATE'' 500) (envDuration (Getenv E) ''RL_CHAIN_WINDOW'' go_minute)
     (envInt (Getenv E) ''RL_SEQUENCE_MAX'' 100) (envDuration (Getenv E) ''RL_SEQUENCE_WINDOW'' go_minute)
     (envFloat (ParseFloat E) (Getenv E) ''RL_GROUP_RATE'' 200) (envInt (Getenv E) ''RL_GROUP_BURST'' 50))"

definition flag_defaults :: "load_env \<Rightarrow> Config" where
  "flag_defaults E = RepairConfig.extend (repair_defaults E) (Config.fields
     (envInt (Getenv E) ''INGRESS_WORKERS'' 1) (envInt (Getenv E) ''INGRESS_RECV_BUF_BYTES'' (64 * 1024 * 1024))
     (envInt (Getenv E) ''INGRESS_QUEUE_DEPTH'' 1024) (envInt (Getenv E) ''INGRESS_PROCS'' 4)
     (envBool (Getenv E) ''DEBUG'' False) (envDuration (Getenv E) ''DRAIN_TIMEOUT'' 0)
     (envStr (Getenv E) ''METRICS_ADDR'' '':9400'') (envStr (Getenv E) ''INSTANCE_ID'' []) (envStr (Getenv E) ''OTLP_ENDPOINT'' []) 0
     (envStr (Getenv E) ''LOG_FORMAT'' ''text'') (envStr (Getenv E) ''LOG_LEVEL'' ''info'')
     (envFloat (ParseFloat E) (Getenv E) ''TRACE_SAMPLING'' 0)
     (envBool (Getenv E) ''BEACON_ENABLED'' True) (envStr (Getenv E) ''CONTROL_GROUP_COMPAT'' ControlGroupASMOnly) 0 0
     (envDuration (Getenv E) ''BEACON_INTERVAL'' (60 * go_second)) (envStr (Getenv E) ''BEACON_SCOPE'' ''site'') 0
     (envBool (Getenv E) ''BEACON_FLAGS_UNICAST'' False) (envBool (Getenv E) ''BEACON_FLAGS_MULTICAST'' True)
     (envBool (Getenv E) ''BEACON_FLAGS_DRAINING'' False) (envStr (Getenv E) ''NACK_ADDR'' [])
     (envBool (Getenv E) ''SUBTREE_DATA_ENABLED'' False) (envBool (Getenv E) ''SUPPRESS_ACK'' False)
     (envBool (Getenv E) ''SUPPRESS_MISS'' False) (envBool (Getenv E) ''RL_THROTTLE_RESPONSE'' False))"

definition var_defaults :: "load_env \<Rightarrow> flag_vars" where
  "var_defaults E =
    \<lparr>v_teeListen = envStr (Getenv E) ''TEE_LISTEN'' [], v_aeroHosts = envStr (Getenv E) ''AEROSPIKE_HOSTS'' [],
     v_beefBits = of_int (envInt (Getenv E) ''BEEF_SHARD_BITS'' 0), v_egressFlag = envStr (Getenv E) ''EGRESS_IFACE'' ''eth0'',
     v_upstreamFlag = envStr (Getenv E) ''UPSTREAM_RETRY_ENDPOINTS'' [], v_groupIDFlag = envStr (Getenv E) ''MC_GROUP_ID'' ''0x000B'',
     v_ssmBootstrapManifest = envStr (Getenv E) ''SSM_BOOTSTRAP_MANIFEST'' [],
     v_ssmBootstrapBeacon = envStr (Getenv E) ''SSM_BOOTSTRAP_BEACON'' [],
     v_ssmBootstrapSubtreeAnn = envStr (Getenv E) ''SSM_BOOTSTRAP_SUBTREE_ANNOUNCE'' [],
     v_ssmPublishersStatic = envStr (Getenv E) ''SSM_PUBLISHERS_STATIC'' [],
     v_otlpInterval = envDuration (Getenv E) ''OTLP_INTERVAL'' (30 * go_second), v_bits = of_int (envInt (Getenv E) ''SHARD_BITS'' 2),
     v_beaconTier = of_int (envInt (Getenv E) ''BEACON_TIER'' 0), v_beaconPref = of_int (envInt (Getenv E) ''BEACON_PREFERENCE'' 128)\<rparr>"

section \<open>Load\<close>

text \<open>Go's \<^verbatim>\<open>if err != nil { return nil, err }\<close> between the stages of validation.\<close>

definition then_ok :: "string + 'a \<Rightarrow> ('a \<Rightarrow> string + 'b) \<Rightarrow> string + 'b" where
  "then_ok r f = (case r of Inl e \<Rightarrow> Inl e | Inr x \<Rightarrow> f x)"

definition resolveCacheTTLs :: "bool \<Rightarrow> bool \<Rightarrow> bool \<Rightarrow> bool \<Rightarrow> bool \<Rightarrow> Config \<Rightarrow> Config" where
  "resolveCacheTTLs cacheTTLExplicit txExplicit blockExplicit subtreeExplicit anchorExplicit c =
    (if \<not> cacheTTLExplicit then c
     else
       (let c1 = (if txExplicit then c else c\<lparr>CacheTTLTx := CacheTTL c\<rparr>);
            c2 = (if blockExplicit then c1 else c1\<lparr>CacheTTLBlock := CacheTTL c1\<rparr>);
            c3 = (if subtreeExplicit then c2 else c2\<lparr>CacheTTLSubtree := CacheTTL c2\<rparr>)
        in if anchorExplicit then c3 else c3\<lparr>CacheTTLAnchor := CacheTTL c3\<rparr>))"

text \<open>A value is explicit if its variable is set or its flag was given.\<close>

definition explicit :: "load_env \<Rightarrow> string set \<Rightarrow> string \<Rightarrow> string \<Rightarrow> bool" where
  "explicit E visited key flag \<longleftrightarrow> Getenv E key \<noteq> [] \<or> flag \<in> visited"

definition load_ttls :: "load_env \<Rightarrow> string set \<Rightarrow> Config \<Rightarrow> Config" where
  "load_ttls E visited c =
    resolveCacheTTLs (explicit E visited ''CACHE_TTL'' ''cache-ttl'') (explicit E visited ''CACHE_TTL_TX'' ''cache-ttl-tx'')
      (explicit E visited ''CACHE_TTL_BLOCK'' ''cache-ttl-block'') (explicit E visited ''CACHE_TTL_SUBTREE'' ''cache-ttl-subtree'')
      (explicit E visited ''CACHE_TTL_ANCHOR'' ''cache-ttl-anchor'') c"

definition load_shards :: "flag_vars \<Rightarrow> Config \<Rightarrow> string + Config" where
  "load_shards v c =
    (let c = c\<lparr>BeaconTier := v_beaconTier v, BeaconPreference := v_beaconPref v\<rparr> in
     if v_bits v < 1 \<or> 12 < v_bits v then Inl ''shard-bits must be in [1, 12]''
     else if 12 < v_beefBits v then Inl ''beef-shard-bits must be in [0, 12]''
     else Inr (c\<lparr>ShardBits := v_bits v, BEEFShardBits := v_beefBits v, NumGroups := push_bit (unat (v_bits v)) 1,
       OTLPInterval := v_otlpInterval v\<rparr>))"

definition load_scope :: "'sc shard_scopes \<Rightarrow> Config \<Rightarrow> string + Config" where
  "load_scope S c =
    (if ToLower (SourceMode c) = ''asm'' then
       (case amap_get Scopes (MCScope c) of
          None \<Rightarrow> Inl ''unknown scope''
        | Some prefix \<Rightarrow> Inr (c\<lparr>SourceMode := ''asm'', MCPrefix := prefix\<rparr>))
     else if ToLower (SourceMode c) = ''ssm'' then
       (case ParseScope S (MCScope c) of
          Inl _ \<Rightarrow> Inl ''source-mode=ssm requires -scope site|global''
        | Inr scope \<Rightarrow> (case PrefixSSM S scope of Inl e \<Rightarrow> Inl e | Inr prefix \<Rightarrow> Inr (c\<lparr>SourceMode := ''ssm'', MCPrefix := prefix\<rparr>)))
     else Inl ''invalid source-mode'')"

definition load_ssm :: "flag_vars \<Rightarrow> Config \<Rightarrow> string + Config" where
  "load_ssm v c0 =
    (let c = c0\<lparr>SSMBootstrapManifest := splitCSV (v_ssmBootstrapManifest v), SSMBootstrapBeacon := splitCSV (v_ssmBootstrapBeacon v),
           SSMBootstrapSubtreeAnn := splitCSV (v_ssmBootstrapSubtreeAnn v), SSMPublishersStatic := splitCSV (v_ssmPublishersStatic v)\<rparr>
     in if SSMBootstrapRefresh c \<le> 0 then Inl ''ssm-bootstrap-refresh must be > 0''
        else if SourceMode c = ''ssm'' then
          (if BindSource c \<noteq> [] \<and> (case ParseIP (BindSource c) of None \<Rightarrow> True | Some ip \<Rightarrow> To4 ip \<noteq> None)
             then Inl ''invalid -bind-source''
           else if SSMBootstrapManifest c = [] \<and> SSMBootstrapBeacon c = [] \<and> SSMBootstrapSubtreeAnn c = [] \<and> SSMPublishersStatic c = []
             then Inl ''source-mode=ssm requires a source list''
           else if 16 < length (SSMPublishersStatic c) \<and> SSMBootstrapManifest c = [] then Inl ''ssm-publishers-static too long''
           else Inr c)
        else Inr c)"

definition load_group_id :: "flag_vars \<Rightarrow> Config \<Rightarrow> string + Config" where
  "load_group_id v c =
    (case parseGroupID (v_groupIDFlag v) of Inl e \<Rightarrow> Inl ''invalid -mc-group-id'' | Inr gid \<Rightarrow> Inr (c\<lparr>MCGroupID := gid\<rparr>))"

definition load_tee :: "flag_vars \<Rightarrow> Config \<Rightarrow> string + Config" where
  "load_tee v c =
    then_ok
      (if v_teeListen v = [] then Inr c
       else case ParseAddrPort (v_teeListen v) of
         None \<Rightarrow> Inl ''invalid -tee-listen''
       | Some (a, port) \<Rightarrow>
           if \<not> IsLoopback a \<or> Is4 a \<or> Is4In6 a then Inl ''-tee-listen must be an IPv6 loopback literal''
           else if port = 0 then Inl ''-tee-listen must carry an explicit port''
           else Inr (c\<lparr>TeeListen := Some (a, port)\<rparr>))
      (\<lambda>c. if \<not> MCJoinEnabled c \<and> TeeListen c = None then Inl ''mc-join-enabled=false requires -tee-listen'' else Inr c)"

definition load_cache :: "flag_vars \<Rightarrow> Config \<Rightarrow> string + Config" where
  "load_cache v c0 =
    (let c = c0\<lparr>AeroHosts := AeroHosts c0 @ filter (\<lambda>h. h \<noteq> []) (map TrimSpace (Split CHR '','' (v_aeroHosts v)))\<rparr>
     in if CacheBackend c \<notin> {''memory'', ''redis'', ''aerospike''} then Inl ''cache-backend must be memory, redis or aerospike''
        else if CacheBackend c = ''redis'' \<and> RedisAddr c = [] then Inl ''redis-addr required when cache-backend=redis''
        else if CacheBackend c = ''aerospike'' \<and> AeroHosts c = [] then Inl ''aerospike-hosts required when cache-backend=aerospike''
        else if list_ex (\<lambda>ttl. ttl \<le> 0) [CacheTTLTx c, CacheTTLBlock c, CacheTTLSubtree c, CacheTTLAnchor c, CacheTTLBEEF c]
          then Inl ''cache TTLs must be > 0''
        else Inr c)"

definition load_workers :: "load_env \<Rightarrow> Config \<Rightarrow> string + Config" where
  "load_workers E c0 =
    (let c = (if NumWorkers c0 < 1 \<or> \<not> GOOS_linux E then c0\<lparr>NumWorkers := 1\<rparr> else c0)
     in if cf_QueueDepth c \<le> 0 then Inl ''ingress-queue-depth must be > 0''
        else if IngressProcs c \<le> 0 then Inl ''ingress-procs must be > 0''
        else Inr (if NACKWorkers c \<le> 0 then c\<lparr>NACKWorkers := NumCPU E\<rparr> else c))"

fun load_ifaces :: "load_env \<Rightarrow> string list \<Rightarrow> Config \<Rightarrow> string + Config" where
  "load_ifaces E [] c = Inr c"
| "load_ifaces E (part # parts) c =
    (let name = TrimSpace part in
     if name = [] then load_ifaces E parts c
     else if \<not> InterfaceByName E name then Inl ''egress interface not found''
     else load_ifaces E parts (c\<lparr>EgressIfaces := EgressIfaces c @ [name]\<rparr>))"

definition load_egress :: "load_env \<Rightarrow> flag_vars \<Rightarrow> Config \<Rightarrow> string + Config" where
  "load_egress E v c =
    then_ok (load_ifaces E (Split CHR '','' (v_egressFlag v)) c)
      (\<lambda>c. if EgressIfaces c = [] then Inl ''at least one egress interface must be specified'' else Inr c)"

definition load_proxy :: "flag_vars \<Rightarrow> Config \<Rightarrow> string + Config" where
  "load_proxy v c0 =
    (let c = c0\<lparr>UpstreamRetryEndpoints := splitCSV (v_upstreamFlag v)\<rparr> in
     if \<not> ProxyEnabled c then Inr c
     else if UpstreamRetryEndpoints c = [] then Inl ''proxy-enabled requires -upstream-retry-endpoints''
     else if \<not> list_all SplitHostPort_ok (UpstreamRetryEndpoints c) then Inl ''invalid -upstream-retry-endpoints entry''
     else if ProxyTimeout c \<le> 0 then Inl ''proxy-timeout must be > 0''
     else if ProxyMaxEndpoints c < 0 then Inl ''proxy-max-endpoints must be >= 0''
     else
       (let c = (if ProxyWorkers c \<le> 0 then c\<lparr>ProxyWorkers := 4\<rparr> else c)
        in if ProxyQueue c \<le> 0 then Inl ''proxy-queue must be > 0'' else Inr c))"

definition load_beacon_scope :: "Config \<Rightarrow> string + Config" where
  "load_beacon_scope c =
    (if BeaconScope c = ''site'' then Inr (c\<lparr>BeaconScopeByte := 0x05\<rparr>)
     else if BeaconScope c = ''org'' then Inr (c\<lparr>BeaconScopeByte := 0x08\<rparr>)
     else if BeaconScope c = ''global'' then Inr (c\<lparr>BeaconScopeByte := 0x0E\<rparr>)
     else if BeaconScope c = ''both'' \<or> BeaconScope c = ''all'' then Inr (c\<lparr>BeaconScopeByte := 0xFF\<rparr>)
     else Inl ''beacon-scope must be one of site|org|global|both|all'')"

definition load_beacon :: "'sc shard_scopes \<Rightarrow> Config \<Rightarrow> string + Config" where
  "load_beacon S c0 =
    then_ok (load_beacon_scope c0)
     (\<lambda>c1. let c = c1\<lparr>ControlGroupCompat := ToLower (TrimSpace (ControlGroupCompat c1))\<rparr> in
       if ControlGroupCompat c \<notin> {ControlGroupASMOnly, ControlGroupBoth, ControlGroupDerived} then Inl ''invalid -control-group-compat''
       else if BeaconEnabled c \<and> isl (BeaconGroupPrefixes S (ControlGroupCompat c) (SourceMode c) (BeaconScope c)) then Inl ''beacon group''
       else if 254 < BeaconTier c then Inl ''beacon-tier must be in [0, 254]''
       else if 255 < BeaconPreference c then Inl ''beacon-preference must fit in uint8''
       else if BeaconInterval c < go_second then Inl ''beacon-interval must be >= 1s''
       else if BeaconNACKAddr c \<noteq> [] \<and> (case ParseIP (BeaconNACKAddr c) of None \<Rightarrow> True | Some ip \<Rightarrow> To16 ip = None \<or> To4 ip \<noteq> None)
         then Inl ''nack-addr must be a valid IPv6 unicast address''
       else Inr c)"

text \<open>\<open>cli\<close> is what \<^verbatim>\<open>flag.Parse\<close> does to the registered values; \<open>visited\<close> are the flags it saw.\<close>

definition Load :: "'sc shard_scopes \<Rightarrow> load_env \<Rightarrow> (Config \<times> flag_vars \<Rightarrow> Config \<times> flag_vars) \<Rightarrow> string set \<Rightarrow> string + Config" where
  "Load S E cli visited =
    (let (c, v) = cli (flag_defaults E, var_defaults E) in
     then_ok (load_shards v (load_ttls E visited c)) (\<lambda>c.
     then_ok (load_scope S c) (\<lambda>c.
     then_ok (load_ssm v c) (\<lambda>c.
     then_ok (load_group_id v c) (\<lambda>c.
     then_ok (load_tee v c) (\<lambda>c.
     then_ok (load_cache v c) (\<lambda>c.
     then_ok (load_workers E c) (\<lambda>c.
     then_ok (load_egress E v c) (\<lambda>c.
     then_ok (load_proxy v c) (\<lambda>c.
     load_beacon S c))))))))))"

section \<open>Lemmas\<close>

text \<open>\<^verbatim>\<open>flag.Parse\<close> writes the variables flags are bound to, so it leaves these fields as they were.\<close>

definition cli_ok :: "(Config \<times> flag_vars \<Rightarrow> Config \<times> flag_vars) \<Rightarrow> bool" where
  "cli_ok cli \<longleftrightarrow> (\<forall>c v. EgressIfaces (fst (cli (c, v))) = EgressIfaces c \<and> TeeListen (fst (cli (c, v))) = TeeListen c)"

text \<open>What a loaded configuration promises, in the order \<^verbatim>\<open>Load\<close> establishes it.\<close>

definition ok_shards :: "Config \<Rightarrow> bool" where
  "ok_shards c \<longleftrightarrow> 1 \<le> ShardBits c \<and> ShardBits c \<le> 12 \<and> BEEFShardBits c \<le> 12 \<and> unat (NumGroups c) = 2 ^ unat (ShardBits c)"

definition ok_scope :: "'sc shard_scopes \<Rightarrow> Config \<Rightarrow> bool" where
  "ok_scope S c \<longleftrightarrow>
     SourceMode c = ''asm'' \<and> amap_get Scopes (MCScope c) = Some (MCPrefix c)
   \<or> SourceMode c = ''ssm'' \<and> (\<exists>sc. ParseScope S (MCScope c) = Inr sc \<and> PrefixSSM S sc = Inr (MCPrefix c))"

definition ok_ssm :: "Config \<Rightarrow> bool" where
  "ok_ssm c \<longleftrightarrow> 0 < SSMBootstrapRefresh c
   \<and> (SourceMode c = ''ssm'' \<longrightarrow>
        (BindSource c \<noteq> [] \<longrightarrow> (\<exists>ip. ParseIP (BindSource c) = Some ip \<and> To4 ip = None))
      \<and> SSMBootstrapManifest c @ SSMBootstrapBeacon c @ SSMBootstrapSubtreeAnn c @ SSMPublishersStatic c \<noteq> []
      \<and> (length (SSMPublishersStatic c) \<le> 16 \<or> SSMBootstrapManifest c \<noteq> []))"

definition ok_tee :: "Config \<Rightarrow> bool" where
  "ok_tee c \<longleftrightarrow> (MCJoinEnabled c \<or> TeeListen c \<noteq> None)
   \<and> (\<forall>a port. TeeListen c = Some (a, port) \<longrightarrow> a = Addr6 (replicate 15 0 @ [1]) \<and> port \<noteq> 0)"

definition ok_cache :: "Config \<Rightarrow> bool" where
  "ok_cache c \<longleftrightarrow> CacheBackend c \<in> {''memory'', ''redis'', ''aerospike''}
   \<and> (CacheBackend c = ''redis'' \<longrightarrow> RedisAddr c \<noteq> []) \<and> (CacheBackend c = ''aerospike'' \<longrightarrow> AeroHosts c \<noteq> [])
   \<and> 0 < CacheTTLTx c \<and> 0 < CacheTTLBlock c \<and> 0 < CacheTTLSubtree c \<and> 0 < CacheTTLAnchor c \<and> 0 < CacheTTLBEEF c"

definition ok_workers :: "load_env \<Rightarrow> Config \<Rightarrow> bool" where
  "ok_workers E c \<longleftrightarrow> 1 \<le> NumWorkers c \<and> (GOOS_linux E \<or> NumWorkers c = 1) \<and> 0 < cf_QueueDepth c \<and> 0 < IngressProcs c
   \<and> 0 < NACKWorkers c"

definition ok_egress :: "load_env \<Rightarrow> Config \<Rightarrow> bool" where
  "ok_egress E c \<longleftrightarrow> EgressIfaces c \<noteq> [] \<and> list_all (InterfaceByName E) (EgressIfaces c)"

definition ok_proxy :: "Config \<Rightarrow> bool" where
  "ok_proxy c \<longleftrightarrow> (ProxyEnabled c \<longrightarrow> UpstreamRetryEndpoints c \<noteq> [] \<and> list_all SplitHostPort_ok (UpstreamRetryEndpoints c)
     \<and> 0 < ProxyTimeout c \<and> 0 \<le> ProxyMaxEndpoints c \<and> 0 < ProxyWorkers c \<and> 0 < ProxyQueue c)"

definition ok_beacon :: "'sc shard_scopes \<Rightarrow> Config \<Rightarrow> bool" where
  "ok_beacon S c \<longleftrightarrow> scope_ok (BeaconScope c) \<and> BeaconScopeByte c = scope_byte (BeaconScope c)
   \<and> ControlGroupCompat c \<in> {''asm-only'', ''both'', ''derived''}
   \<and> (BeaconEnabled c \<longrightarrow> (\<exists>ps. BeaconGroupPrefixes S (ControlGroupCompat c) (SourceMode c) (BeaconScope c) = Inr ps))
   \<and> BeaconTier c \<le> 254 \<and> BeaconPreference c \<le> 255 \<and> go_second \<le> BeaconInterval c
   \<and> (BeaconNACKAddr c \<noteq> [] \<longrightarrow> (\<exists>ip. ParseIP (BeaconNACKAddr c) = Some ip \<and> To4 ip = None))"

definition config_ok :: "'sc shard_scopes \<Rightarrow> load_env \<Rightarrow> Config \<Rightarrow> bool" where
  "config_ok S E c \<longleftrightarrow> ok_shards c \<and> ok_scope S c \<and> ok_ssm c \<and> ok_tee c \<and> ok_cache c \<and> ok_workers E c \<and> ok_egress E c
     \<and> ok_proxy c \<and> ok_beacon S c"

definition ttl_rule :: "bool \<Rightarrow> bool \<Rightarrow> int \<Rightarrow> int \<Rightarrow> int" where
  "ttl_rule own_given fallback_given own fallback = (if \<not> own_given \<and> fallback_given then fallback else own)"

lemma then_ok_Inr: "then_ok r f = Inr y \<longleftrightarrow> (\<exists>x. r = Inr x \<and> f x = Inr y)"
  by (auto simp: then_ok_def split: sum.splits)

lemma not_isl_Inr: "\<not> isl r \<longleftrightarrow> (\<exists>y. r = Inr y)"
  by (cases r) auto

text \<open>What each stage establishes, and the fields it may write.\<close>

lemma keep_or_set:
  "(if b then c else c\<lparr>CacheTTLTx := x\<rparr>) = (c :: Config)\<lparr>CacheTTLTx := if b then CacheTTLTx c else x\<rparr>"
  "(if b then c else c\<lparr>CacheTTLBlock := x\<rparr>) = c\<lparr>CacheTTLBlock := if b then CacheTTLBlock c else x\<rparr>"
  "(if b then c else c\<lparr>CacheTTLSubtree := x\<rparr>) = c\<lparr>CacheTTLSubtree := if b then CacheTTLSubtree c else x\<rparr>"
  "(if b then c else c\<lparr>CacheTTLAnchor := x\<rparr>) = c\<lparr>CacheTTLAnchor := if b then CacheTTLAnchor c else x\<rparr>"
  by simp_all

lemma load_ttls_frame:
  "\<exists>a b d e. load_ttls E visited c = c\<lparr>CacheTTLTx := a, CacheTTLBlock := b, CacheTTLSubtree := d, CacheTTLAnchor := e\<rparr>"
proof (cases "explicit E visited ''CACHE_TTL'' ''cache-ttl''")
  case True
  then show ?thesis unfolding load_ttls_def resolveCacheTTLs_def Let_def keep_or_set by (simp only: not_True_eq_False if_False) blast
next
  case False
  then have "load_ttls E visited c = c\<lparr>CacheTTLTx := CacheTTLTx c, CacheTTLBlock := CacheTTLBlock c,
      CacheTTLSubtree := CacheTTLSubtree c, CacheTTLAnchor := CacheTTLAnchor c\<rparr>"
    by (simp add: load_ttls_def resolveCacheTTLs_def)
  then show ?thesis by blast
qed

lemma load_ttls_rule:
  "CacheTTLTx (load_ttls E visited c) = ttl_rule (explicit E visited ''CACHE_TTL_TX'' ''cache-ttl-tx'')
     (explicit E visited ''CACHE_TTL'' ''cache-ttl'') (CacheTTLTx c) (CacheTTL c)"
  "CacheTTLBlock (load_ttls E visited c) = ttl_rule (explicit E visited ''CACHE_TTL_BLOCK'' ''cache-ttl-block'')
     (explicit E visited ''CACHE_TTL'' ''cache-ttl'') (CacheTTLBlock c) (CacheTTL c)"
  "CacheTTLSubtree (load_ttls E visited c) = ttl_rule (explicit E visited ''CACHE_TTL_SUBTREE'' ''cache-ttl-subtree'')
     (explicit E visited ''CACHE_TTL'' ''cache-ttl'') (CacheTTLSubtree c) (CacheTTL c)"
  "CacheTTLAnchor (load_ttls E visited c) = ttl_rule (explicit E visited ''CACHE_TTL_ANCHOR'' ''cache-ttl-anchor'')
     (explicit E visited ''CACHE_TTL'' ''cache-ttl'') (CacheTTLAnchor c) (CacheTTL c)"
  "CacheTTLBEEF (load_ttls E visited c) = CacheTTLBEEF c"
  by (simp_all add: load_ttls_def resolveCacheTTLs_def Let_def ttl_rule_def)

lemma unat_small_shift:
  fixes b :: u64
  assumes "b \<le> 12"
  shows "unat (push_bit (unat b) (1 :: u32)) = 2 ^ unat b"
proof -
  have "unat b < 32" using assms by (simp add: word_le_nat_alt)
  then have "(2 :: nat) ^ unat b < 2 ^ 32" by (intro power_strict_increasing) auto
  moreover have "push_bit (unat b) (1 :: u32) = of_nat (2 ^ unat b)" by simp
  ultimately show ?thesis by (simp only: unat_of_nat) simp
qed

lemma load_shards_ok:
  assumes "load_shards v c = Inr c'"
  shows "ok_shards c'" and "\<exists>a b d e f g. c' = c\<lparr>BeaconTier := a, BeaconPreference := b, ShardBits := d, BEEFShardBits := e, NumGroups := f, OTLPInterval := g\<rparr>"
proof -
  have one: "1 \<le> x" if "\<not> x < 1" for x :: u64 using that unfolding linorder_not_less .
  show "ok_shards c'"
    using assms unat_small_shift [of "v_bits v"] one [of "v_bits v"]
    by (auto simp: load_shards_def ok_shards_def Let_def linorder_not_less split: if_splits)
  have "c' = c\<lparr>BeaconTier := BeaconTier c', BeaconPreference := BeaconPreference c', ShardBits := ShardBits c',
      BEEFShardBits := BEEFShardBits c', NumGroups := NumGroups c', OTLPInterval := OTLPInterval c'\<rparr>"
    using assms by (auto simp: load_shards_def Let_def split: if_splits)
  then show "\<exists>a b d e f g. c' = c\<lparr>BeaconTier := a, BeaconPreference := b, ShardBits := d, BEEFShardBits := e, NumGroups := f, OTLPInterval := g\<rparr>"
    by blast
qed

lemma load_scope_ok:
  assumes "load_scope S c = Inr c'"
  shows "ok_scope S c'" and "\<exists>a b. c' = c\<lparr>SourceMode := a, MCPrefix := b\<rparr>"
  using assms by (auto simp: load_scope_def ok_scope_def split: if_splits option.splits sum.splits)

lemma load_ssm_ok:
  assumes "load_ssm v c = Inr c'"
  shows "ok_ssm c'"
    and "\<exists>a b d e. c' = c\<lparr>SSMBootstrapManifest := a, SSMBootstrapBeacon := b, SSMBootstrapSubtreeAnn := d, SSMPublishersStatic := e\<rparr>"
  using assms by (auto simp: load_ssm_def ok_ssm_def Let_def not_less split: if_splits option.splits)

lemma load_group_id_ok:
  "load_group_id v c = Inr c' \<Longrightarrow> \<exists>a. c' = c\<lparr>MCGroupID := a\<rparr>"
  by (auto simp: load_group_id_def split: sum.splits)

lemma loopback6: "IsLoopback a \<Longrightarrow> \<not> Is4 a \<Longrightarrow> \<not> Is4In6 a \<Longrightarrow> a = Addr6 (replicate 15 0 @ [1])"
  by (auto simp: IsLoopback_def Is4_def Is4In6_def split: Addr.splits)

lemma load_tee_ok:
  assumes "load_tee v c = Inr c'" and "TeeListen c = None"
  shows "ok_tee c'" and "\<exists>a. c' = c\<lparr>TeeListen := a\<rparr>"
proof -
  show "ok_tee c'" using assms loopback6
    by (auto simp: load_tee_def then_ok_Inr ok_tee_def split: if_splits option.splits)
  have "c' = c\<lparr>TeeListen := TeeListen c'\<rparr>" using assms
    by (auto simp: load_tee_def then_ok_Inr split: if_splits option.splits)
  then show "\<exists>a. c' = c\<lparr>TeeListen := a\<rparr>" by blast
qed

lemma load_cache_ok:
  assumes "load_cache v c = Inr c'"
  shows "ok_cache c'" and "\<exists>a. c' = c\<lparr>AeroHosts := a\<rparr>"
  using assms by (auto simp: load_cache_def ok_cache_def Let_def not_le split: if_splits)

lemma load_workers_ok:
  assumes "load_workers E c = Inr c'" and "0 < NumCPU E"
  shows "ok_workers E c'" and "\<exists>a b. c' = c\<lparr>NumWorkers := a, NACKWorkers := b\<rparr>"
proof -
  show "ok_workers E c'" using assms by (auto simp: load_workers_def ok_workers_def Let_def split: if_splits)
  have "c' = c\<lparr>NumWorkers := NumWorkers c', NACKWorkers := NACKWorkers c'\<rparr>"
    using assms(1) by (auto simp: load_workers_def Let_def split: if_splits)
  then show "\<exists>a b. c' = c\<lparr>NumWorkers := a, NACKWorkers := b\<rparr>" by blast
qed

lemma load_ifaces_ok:
  "load_ifaces E parts c = Inr c' \<Longrightarrow> list_all (InterfaceByName E) (EgressIfaces c) \<Longrightarrow>
   list_all (InterfaceByName E) (EgressIfaces c') \<and> c' = c\<lparr>EgressIfaces := EgressIfaces c'\<rparr>"
  by (induction parts arbitrary: c) (fastforce simp: Let_def split: if_splits)+

lemma load_egress_ok:
  assumes "load_egress E v c = Inr c'" and "EgressIfaces c = []"
  shows "ok_egress E c'" and "\<exists>a. c' = c\<lparr>EgressIfaces := a\<rparr>"
  using assms load_ifaces_ok [of E "Split CHR '','' (v_egressFlag v)" c]
  by (auto simp: load_egress_def then_ok_Inr ok_egress_def split: if_splits)

lemma load_proxy_ok:
  assumes "load_proxy v c = Inr c'"
  shows "ok_proxy c'" and "\<exists>a b. c' = c\<lparr>UpstreamRetryEndpoints := a, ProxyWorkers := b\<rparr>"
proof -
  show "ok_proxy c'" using assms by (auto simp: load_proxy_def ok_proxy_def Let_def split: if_splits)
  have "c' = c\<lparr>UpstreamRetryEndpoints := UpstreamRetryEndpoints c', ProxyWorkers := ProxyWorkers c'\<rparr>"
    using assms by (auto simp: load_proxy_def Let_def split: if_splits)
  then show "\<exists>a b. c' = c\<lparr>UpstreamRetryEndpoints := a, ProxyWorkers := b\<rparr>" by blast
qed

lemma load_beacon_scope_ok:
  assumes "load_beacon_scope c = Inr c'"
  shows "scope_ok (BeaconScope c')" "BeaconScopeByte c' = scope_byte (BeaconScope c')" "\<exists>a. c' = c\<lparr>BeaconScopeByte := a\<rparr>"
  using assms by (auto simp: load_beacon_scope_def scope_ok_def scope_byte_def split: if_splits)

lemma load_beacon_ok:
  assumes "load_beacon S c = Inr c'"
  shows "ok_beacon S c'" and "\<exists>a b. c' = c\<lparr>BeaconScopeByte := a, ControlGroupCompat := b\<rparr>"
proof -
  from assms obtain c1 where c1: "load_beacon_scope c = Inr c1" by (auto simp: load_beacon_def then_ok_Inr)
  note sc = load_beacon_scope_ok [OF c1]
  show "ok_beacon S c'"
    using assms sc(1,2)
    by (auto simp: load_beacon_def then_ok_def c1 ok_beacon_def Let_def control_group_names not_isl_Inr not_less not_le
        split: if_splits option.splits sum.splits)
  show "\<exists>a b. c' = c\<lparr>BeaconScopeByte := a, ControlGroupCompat := b\<rparr>"
    using assms sc(3) by (auto simp: load_beacon_def then_ok_def c1 Let_def split: if_splits option.splits)
qed

lemma Load_stages:
  assumes "Load S E cli visited = Inr c" and "cli (flag_defaults E, var_defaults E) = (c0, v)"
  shows "\<exists>c1 c2 c3 c4 c5 c6 c7 c8 c9. load_shards v (load_ttls E visited c0) = Inr c1 \<and> load_scope S c1 = Inr c2 \<and> load_ssm v c2 = Inr c3
    \<and> load_group_id v c3 = Inr c4 \<and> load_tee v c4 = Inr c5 \<and> load_cache v c5 = Inr c6 \<and> load_workers E c6 = Inr c7
    \<and> load_egress E v c7 = Inr c8 \<and> load_proxy v c8 = Inr c9 \<and> load_beacon S c9 = Inr c"
  using assms by (auto simp: Load_def then_ok_Inr)

lemmas ok_defs = ok_shards_def ok_scope_def ok_ssm_def ok_tee_def ok_cache_def ok_workers_def ok_egress_def ok_proxy_def

section \<open>Properties\<close>


section \<open>Witness\<close>

definition ex_load_env :: load_env where
  "ex_load_env = \<lparr>Getenv = (\<lambda>_. []), ParseFloat = (\<lambda>_. None), InterfaceByName = (\<lambda>n. n = ''eth0''), NumCPU = 4, GOOS_linux = True\<rparr>"

definition ex_config :: Config where
  "ex_config = (case Load ref_scopes ex_load_env id {} of Inr c \<Rightarrow> c | Inl _ \<Rightarrow> flag_defaults ex_load_env)"

lemma ex_load: "Load ref_scopes ex_load_env id {} = Inr ex_config"
proof -
  have "\<not> isl (Load ref_scopes ex_load_env id {})" by code_simp
  then show ?thesis by (auto simp: not_isl_Inr ex_config_def)
qed


end
