(* ===== verification/Cache_Store.thy ===== *)
theory Cache_Store
  imports Go_Prelude "HOL-Library.Sublist"
begin

text \<open>
  The cache adapter of \<^verbatim>\<open>src/cache/cache.go\<close>: a \<open>Store\<close> namespaces a backend of \<^verbatim>\<open>shard-common/cache\<close> under a
  key prefix.  The backend is a parameter (the record \<open>Backend\<close> of its operations on the external
  storage state \<open>'b\<close>); what the program relies on is \<open>backend_ok\<close>: a read returns the value currently
  visible under the key, a write makes its value visible and may evict others, \<^verbatim>\<open>SetNX\<close> succeeds exactly
  when the key is absent, and a failed call reports no success.  The locales \<open>frame_cache\<close> and \<open>deduper\<close> are
  Go's interfaces \<^verbatim>\<open>cache.Cache\<close> and \<^verbatim>\<open>cache.Deduper\<close> with their laws; \<open>Store\<close> is their interpretation.
\<close>

section \<open>Backends\<close>

datatype ctx = Background | WithTimeout int

record 'b Backend =
  Set :: "ctx \<Rightarrow> bytes \<Rightarrow> bytes \<Rightarrow> int \<Rightarrow> 'b \<Rightarrow> go_error option \<times> 'b"
  Get :: "ctx \<Rightarrow> bytes \<Rightarrow> 'b \<Rightarrow> (go_error + bytes option) \<times> 'b"
  Del :: "ctx \<Rightarrow> bytes \<Rightarrow> 'b \<Rightarrow> go_error option \<times> 'b"
  SetNX :: "ctx \<Rightarrow> bytes \<Rightarrow> bytes \<Rightarrow> int \<Rightarrow> 'b \<Rightarrow> (bool \<times> go_error option) \<times> 'b"
  LenOf :: "('b \<Rightarrow> int) option"
  isMemory :: bool

type_synonym 'b view = "'b \<Rightarrow> bytes \<Rightarrow> bytes option"

text \<open>Every key but \<open>k\<close> keeps its value or loses it (expiry, eviction).\<close>

definition keeps_others :: "'b view \<Rightarrow> bytes \<Rightarrow> 'b \<Rightarrow> 'b \<Rightarrow> bool" where
  "keeps_others vw k w w' \<longleftrightarrow> (\<forall>k'. k' \<noteq> k \<longrightarrow> vw w' k' = vw w k' \<or> vw w' k' = None)"

definition backend_ok :: "'b view \<Rightarrow> 'b Backend \<Rightarrow> bool" where
  "backend_ok vw B \<longleftrightarrow>
     (\<forall>c k w r w'. Get B c k w = (r, w') \<longrightarrow> vw w' = vw w \<and> (\<forall>x. r = Inr x \<longrightarrow> x = vw w k))
   \<and> (\<forall>c k v ttl w e w'. Set B c k v ttl w = (e, w') \<and> 0 < ttl \<longrightarrow>
        keeps_others vw k w w' \<and> (if e = None then vw w' k = Some v else vw w' k \<in> {vw w k, Some v, None}))
   \<and> (\<forall>c k v ttl w b e w'. SetNX B c k v ttl w = ((b, e), w') \<and> 0 < ttl \<longrightarrow>
        keeps_others vw k w w'
        \<and> (b \<longrightarrow> e = None \<and> vw w k = None \<and> vw w' k = Some v)
        \<and> (\<not> b \<and> e = None \<longrightarrow> vw w k \<noteq> None \<and> vw w' k = vw w k))"

section \<open>The store\<close>

record 'b Store =
  st_b :: "'b Backend"
  st_prefix :: bytes
  st_opTimeout :: int
  st_local :: bool

definition NewStore :: "'b Backend \<Rightarrow> bytes \<Rightarrow> int \<Rightarrow> 'b Store" where
  "NewStore B pfx opTimeout =
    \<lparr>st_b = B, st_prefix = pfx,
     st_opTimeout = (if opTimeout \<le> 0 then 1000000000 else opTimeout), st_local = isMemory B\<rparr>"

definition st_key :: "'b Store \<Rightarrow> bytes \<Rightarrow> bytes" where
  "st_key s k = st_prefix s @ k"

definition opCtx :: "'b Store \<Rightarrow> ctx" where
  "opCtx s = (if st_local s then Background else WithTimeout (st_opTimeout s))"

definition Store_Store :: "'b Store \<Rightarrow> bytes \<Rightarrow> bytes \<Rightarrow> int \<Rightarrow> 'b \<Rightarrow> go_error option \<times> 'b" where
  "Store_Store s k v ttl w = Set (st_b s) (opCtx s) (st_key s k) v ttl w"

definition Store_Retrieve :: "'b Store \<Rightarrow> bytes \<Rightarrow> 'b \<Rightarrow> (go_error + bytes option) \<times> 'b" where
  "Store_Retrieve s k w = Get (st_b s) (opCtx s) (st_key s k) w"

definition Store_Delete :: "'b Store \<Rightarrow> bytes \<Rightarrow> 'b \<Rightarrow> go_error option \<times> 'b" where
  "Store_Delete s k w = Del (st_b s) (opCtx s) (st_key s k) w"

definition Store_SetNX :: "'b Store \<Rightarrow> bytes \<Rightarrow> bytes \<Rightarrow> int \<Rightarrow> 'b \<Rightarrow> (bool \<times> go_error option) \<times> 'b" where
  "Store_SetNX s k v ttl w = SetNX (st_b s) (opCtx s) (st_key s k) v ttl w"

definition Store_Len :: "'b Store \<Rightarrow> 'b \<Rightarrow> int" where
  "Store_Len s w = (case LenOf (st_b s) of Some f \<Rightarrow> f w | None \<Rightarrow> 0)"

definition Store_Close :: "'b Store \<Rightarrow> 'b \<Rightarrow> go_error option \<times> 'b" where
  "Store_Close s w = (None, w)"

text \<open>The bytes of an ASCII literal, for the key prefixes.\<close>

definition ascii :: "string \<Rightarrow> bytes" where
  "ascii s = map (\<lambda>c. of_nat (of_char c)) s"

section \<open>The interfaces Cache and Deduper\<close>

locale frame_cache =
  fixes store :: "'c \<Rightarrow> bytes \<Rightarrow> bytes \<Rightarrow> int \<Rightarrow> 'w \<Rightarrow> go_error option \<times> 'w"
    and retrieve :: "'c \<Rightarrow> bytes \<Rightarrow> 'w \<Rightarrow> (go_error + bytes option) \<times> 'w"
    and shown :: "'c \<Rightarrow> 'w \<Rightarrow> bytes \<Rightarrow> bytes option"
    and good :: "'c \<Rightarrow> bool"
  assumes retrieve_shown: "good c \<Longrightarrow> retrieve c k w = (r, w') \<Longrightarrow>
      shown c w' = shown c w \<and> (\<forall>x. r = Inr x \<longrightarrow> x = shown c w k)"
    and store_shown: "good c \<Longrightarrow> 0 < ttl \<Longrightarrow> store c k v ttl w = (e, w') \<Longrightarrow>
      (if e = None then shown c w' k = Some v else shown c w' k \<in> {shown c w k, Some v, None})"
    and store_others: "good c \<Longrightarrow> 0 < ttl \<Longrightarrow> store c k v ttl w = (e, w') \<Longrightarrow> k' \<noteq> k \<Longrightarrow>
      shown c w' k' = shown c w k' \<or> shown c w' k' = None"
begin

lemma store_then_retrieve:
  assumes "good c" and "0 < ttl" and "store c k v ttl w = (None, w')" and "retrieve c k w' = (Inr x, w'')"
  shows "x = Some v"
  using store_shown [OF assms(1-3)] retrieve_shown [OF assms(1,4)] by simp

text \<open>Whatever is retrieved was stored: values never move between keys.\<close>

fun stores :: "'c \<Rightarrow> (bytes \<times> bytes \<times> int) list \<Rightarrow> 'w \<Rightarrow> 'w" where
  "stores c [] w = w"
| "stores c ((k, v, ttl) # xs) w = stores c xs (snd (store c k v ttl w))"

lemma stores_integrity:
  assumes "good c" and "\<forall>(k, v, ttl) \<in> set xs. 0 < ttl" and "shown c (stores c xs w) k = Some v"
  shows "shown c w k = Some v \<or> v \<in> {v'. \<exists>ttl. (k, v', ttl) \<in> set xs}"
  using assms(2,3)
proof (induction xs arbitrary: w)
  case Nil
  then show ?case by simp
next
  case (Cons x xs)
  obtain k0 v0 ttl where x: "x = (k0, v0, ttl)" by (cases x) auto
  obtain e w1 where st: "store c k0 v0 ttl w = (e, w1)" by force
  have "shown c w1 k = Some v \<or> v \<in> {v'. \<exists>ttl. (k, v', ttl) \<in> set xs}"
    using Cons.IH [of w1] Cons.prems st by (auto simp: x)
  moreover have "shown c w k = Some v \<or> (k = k0 \<and> v = v0)" if "shown c w1 k = Some v"
  proof (cases "k = k0")
    case True
    with that store_shown [OF assms(1) _ st] Cons.prems(1) show ?thesis
      by (auto simp: x split: if_splits)
  next
    case False
    with that store_others [OF assms(1) _ st, of k] Cons.prems(1) show ?thesis by (auto simp: x)
  qed
  ultimately show ?case by (auto simp: x)
qed

end

locale deduper =
  fixes setnx :: "'c \<Rightarrow> bytes \<Rightarrow> bytes \<Rightarrow> int \<Rightarrow> 'w \<Rightarrow> (bool \<times> go_error option) \<times> 'w"
    and claimed :: "'c \<Rightarrow> 'w \<Rightarrow> bytes \<Rightarrow> bool"
    and good :: "'c \<Rightarrow> bool"
  assumes setnx_win: "good c \<Longrightarrow> 0 < ttl \<Longrightarrow> setnx c k v ttl w = ((True, e), w') \<Longrightarrow>
      e = None \<and> \<not> claimed c w k \<and> claimed c w' k"
    and setnx_lose: "good c \<Longrightarrow> 0 < ttl \<Longrightarrow> setnx c k v ttl w = ((False, None), w') \<Longrightarrow>
      claimed c w k \<and> claimed c w' k"
    and setnx_fresh: "good c \<Longrightarrow> 0 < ttl \<Longrightarrow> setnx c k v ttl w = (r, w') \<Longrightarrow> k' \<noteq> k \<Longrightarrow>
      claimed c w' k' \<Longrightarrow> claimed c w k'"
begin

text \<open>While a claim stands, nobody else wins it.\<close>

lemma claimed_not_won:
  assumes "good c" and "0 < ttl" and "claimed c w k" and "setnx c k v ttl w = ((b, e), w')"
  shows "\<not> b"
  using setnx_win [OF assms(1,2), of k v w e w'] assms(3,4) by (cases b) auto

lemma win_then_lose:
  assumes "good c" and "0 < ttl" and "setnx c k v ttl w = ((True, e), w1)"
    and "claimed c w1 k \<longrightarrow> claimed c w2 k" and "setnx c k v' ttl w2 = ((b, e'), w3)"
  shows "\<not> b"
  using setnx_win [OF assms(1-3)] assms claimed_not_won by blast

end

section \<open>Store implements both interfaces\<close>

definition st_shown :: "'b view \<Rightarrow> 'b Store \<Rightarrow> 'b \<Rightarrow> bytes \<Rightarrow> bytes option" where
  "st_shown vw s w k = vw w (st_key s k)"

definition st_claimed :: "'b view \<Rightarrow> 'b Store \<Rightarrow> 'b \<Rightarrow> bytes \<Rightarrow> bool" where
  "st_claimed vw s w k \<longleftrightarrow> st_shown vw s w k \<noteq> None"

definition st_good :: "'b view \<Rightarrow> 'b Store \<Rightarrow> bool" where
  "st_good vw s \<longleftrightarrow> backend_ok vw (st_b s)"

lemma st_key_inject [simp]: "st_key s k = st_key s k' \<longleftrightarrow> k = k'"
  by (simp add: st_key_def)

lemma backend_Get:
  "backend_ok vw B \<Longrightarrow> Get B c k w = (r, w') \<Longrightarrow> vw w' = vw w \<and> (\<forall>x. r = Inr x \<longrightarrow> x = vw w k)"
  unfolding backend_ok_def by (drule conjunct1) metis

lemma backend_Set:
  "backend_ok vw B \<Longrightarrow> 0 < ttl \<Longrightarrow> Set B c k v ttl w = (e, w') \<Longrightarrow>
   keeps_others vw k w w' \<and> (if e = None then vw w' k = Some v else vw w' k \<in> {vw w k, Some v, None})"
  unfolding backend_ok_def by blast

lemma backend_SetNX:
  "backend_ok vw B \<Longrightarrow> 0 < ttl \<Longrightarrow> SetNX B c k v ttl w = ((b, e), w') \<Longrightarrow>
   keeps_others vw k w w'
   \<and> (b \<longrightarrow> e = None \<and> vw w k = None \<and> vw w' k = Some v)
   \<and> (\<not> b \<and> e = None \<longrightarrow> vw w k \<noteq> None \<and> vw w' k = vw w k)"
  unfolding backend_ok_def by blast

interpretation fc: frame_cache Store_Store Store_Retrieve "st_shown vw" "st_good vw" for vw
proof unfold_locales
  fix c :: "'a Store" and k w r w'
  assume "st_good vw c" and "Store_Retrieve c k w = (r, w')"
  then show "st_shown vw c w' = st_shown vw c w \<and> (\<forall>x. r = Inr x \<longrightarrow> x = st_shown vw c w k)"
    using backend_Get by (fastforce simp: st_good_def Store_Retrieve_def st_shown_def)
next
  fix c :: "'a Store" and ttl k v w e w'
  assume "st_good vw c" and "0 < ttl" and "Store_Store c k v ttl w = (e, w')"
  then have "if e = None then vw w' (st_key c k) = Some v
      else vw w' (st_key c k) \<in> {vw w (st_key c k), Some v, None}"
    using backend_Set [of vw "st_b c" ttl "opCtx c" "st_key c k" v w e w'] unfolding st_good_def Store_Store_def by blast
  then show "if e = None then st_shown vw c w' k = Some v
      else st_shown vw c w' k \<in> {st_shown vw c w k, Some v, None}"
    unfolding st_shown_def .
next
  fix c :: "'a Store" and ttl k v w e w' k'
  assume "st_good vw c" and "0 < ttl" and "Store_Store c k v ttl w = (e, w')" and "k' \<noteq> k"
  then show "st_shown vw c w' k' = st_shown vw c w k' \<or> st_shown vw c w' k' = None"
    using backend_Set [of vw "st_b c" ttl "opCtx c" "st_key c k" v w e w']
    by (simp add: st_good_def Store_Store_def st_shown_def keeps_others_def)
qed

interpretation dd: deduper Store_SetNX "st_claimed vw" "st_good vw" for vw
proof unfold_locales
  fix c :: "'a Store" and ttl k v w e w'
  assume "st_good vw c" and "0 < ttl" and "Store_SetNX c k v ttl w = ((True, e), w')"
  then show "e = None \<and> \<not> st_claimed vw c w k \<and> st_claimed vw c w' k"
    using backend_SetNX [of vw "st_b c" ttl]
    by (fastforce simp: st_good_def Store_SetNX_def st_claimed_def st_shown_def)
next
  fix c :: "'a Store" and ttl k v w w'
  assume "st_good vw c" and "0 < ttl" and "Store_SetNX c k v ttl w = ((False, None), w')"
  then show "st_claimed vw c w k \<and> st_claimed vw c w' k"
    using backend_SetNX [of vw "st_b c" ttl]
    by (fastforce simp: st_good_def Store_SetNX_def st_claimed_def st_shown_def)
next
  fix c :: "'a Store" and ttl k v w r w' k'
  assume "st_good vw c" and "0 < ttl" and "Store_SetNX c k v ttl w = (r, w')" and "k' \<noteq> k"
    and cl: "st_claimed vw c w' k'"
  then have "keeps_others vw (st_key c k) w w'"
    using backend_SetNX [of vw "st_b c" ttl "opCtx c" "st_key c k" v w "fst r" "snd r" w']
    by (simp add: st_good_def Store_SetNX_def)
  then have "vw w' (st_key c k') = vw w (st_key c k') \<or> vw w' (st_key c k') = None"
    using \<open>k' \<noteq> k\<close> by (simp add: keeps_others_def)
  with cl show "st_claimed vw c w k'"
    by (auto simp: st_claimed_def st_shown_def)
qed

section \<open>Namespaces do not collide\<close>

text \<open>Two stores on one backend whose prefixes are not prefixes of each other share no key.\<close>

lemma prefix_disjoint_keys:
  assumes "\<not> prefix (st_prefix s) (st_prefix s')" and "\<not> prefix (st_prefix s') (st_prefix s)"
  shows "st_key s k \<noteq> st_key s' k'"
  using assms prefix_same_cases [of "st_prefix s" "st_key s k" "st_prefix s'"]
  by (auto simp: st_key_def)

section \<open>A reference backend\<close>

text \<open>A map without expiry: the simplest backend with the documented behaviour.\<close>

definition map_backend :: "bool \<Rightarrow> (bytes, bytes) amap Backend" where
  "map_backend mem =
    \<lparr>Set = (\<lambda>c k v ttl m. (None, amap_put k v m)),
     Get = (\<lambda>c k m. (Inr (amap_get m k), m)),
     Del = (\<lambda>c k m. (None, AList.delete k m)),
     SetNX = (\<lambda>c k v ttl m. (case amap_get m k of None \<Rightarrow> ((True, None), amap_put k v m) | Some _ \<Rightarrow> ((False, None), m))),
     LenOf = Some (\<lambda>m. int (length m)),
     isMemory = mem\<rparr>"

lemma map_backend_ok: "backend_ok amap_get (map_backend mem)"
  by (auto simp: backend_ok_def map_backend_def keeps_others_def split: option.splits)

section \<open>Properties\<close>

text \<open>
  The key spaces of frames, retransmit claims and proxy claims do not meet: no key of one of the prefixes that \<^verbatim>\<open>main.go\<close> uses is
  a key of another.
\<close>

definition key_spaces :: "bytes set" where
  "key_spaces = {ascii ''bre:frame:'', ascii ''bre:dedup:'', ascii ''bre:proxy:''}"

lemma namespaces_disjoint:
  assumes "st_prefix st \<in> key_spaces" and "st_prefix st' \<in> key_spaces" and "st_prefix st \<noteq> st_prefix st'"
  shows "st_key st k \<noteq> st_key st' k'"
  using assms by (intro prefix_disjoint_keys) (auto simp: ascii_def key_spaces_def)

text \<open>
  What an endpoint does to a backend its stores share, whatever each operation returned: frames stored and looked up in \<open>st\<close>, and
  claims in another key space.
\<close>

datatype 'b cache_op = PutFrame bytes bytes int | LookFrame bytes | Claim "'b Store" bytes bytes int

fun run_op :: "'b Store \<Rightarrow> 'b cache_op \<Rightarrow> 'b \<Rightarrow> 'b" where
  "run_op st (PutFrame k v ttl) w = snd (Store_Store st k v ttl w)"
| "run_op st (LookFrame k) w = snd (Store_Retrieve st k w)"
| "run_op st (Claim cs k v ttl) w = snd (Store_SetNX cs k v ttl w)"

fun op_ok :: "'b Store \<Rightarrow> 'b cache_op \<Rightarrow> bool" where
  "op_ok st (PutFrame k v ttl) \<longleftrightarrow> 0 < ttl"
| "op_ok st (LookFrame k) \<longleftrightarrow> True"
| "op_ok st (Claim cs k v ttl) \<longleftrightarrow> 0 < ttl \<and> st_b cs = st_b st \<and> {st_prefix cs, st_prefix st} \<subseteq> key_spaces \<and> st_prefix cs \<noteq> st_prefix st"

definition run_ops :: "'b Store \<Rightarrow> 'b cache_op list \<Rightarrow> 'b \<Rightarrow> 'b" where
  "run_ops st ops w = fold (run_op st) ops w"

lemma run_op_shown:
  assumes "st_good vw st" and "op_ok st op" and "st_shown vw st (run_op st op w) key = Some val"
  shows "st_shown vw st w key = Some val \<or> (\<exists>ttl. op = PutFrame key val ttl)"
proof (cases op)
  case (PutFrame k v ttl)
  with assms fc.stores_integrity [OF assms(1), of "[(k, v, ttl)]" w key val] show ?thesis by auto
next
  case (LookFrame k)
  with assms(3) fc.retrieve_shown [OF assms(1) prod.collapse [symmetric], of k w] show ?thesis by auto
next
  case (Claim cs k v ttl)
  obtain b e w' where r: "Store_SetNX cs k v ttl w = ((b, e), w')" by (metis prod.collapse)
  with Claim assms(1,2) have "keeps_others vw (st_key cs k) w w'"
    using backend_SetNX [of vw "st_b cs" ttl "opCtx cs" "st_key cs k" v w b e w'] by (simp add: st_good_def Store_SetNX_def)
  moreover have "st_key st key \<noteq> st_key cs k" using namespaces_disjoint [of st cs] Claim assms(2) by auto
  ultimately show ?thesis using assms(3) Claim r by (auto simp: keeps_others_def st_shown_def)
qed

text \<open>
  C20: The cache returns only what was stored.  Whatever frames are stored and looked up and whatever claims the retransmitter and the proxy make
  on the same backend, a value that is retrieved under a key was stored under that very key, or was already there: frames never move between
  (HashKey, SeqNum) pairs and a claim is never taken for a frame, however the backend evicts and whichever operations fail.
\<close>

theorem cache_integrity:
  assumes "st_good vw st" and "list_all (op_ok st) ops" and "Store_Retrieve st key (run_ops st ops w) = (Inr (Some val), w')"
  shows "st_shown vw st w key = Some val \<or> (\<exists>ttl. PutFrame key val ttl \<in> set ops)"
proof -
  have "st_shown vw st (run_ops st ops w) key = Some val"
    using fc.retrieve_shown [OF assms(1,3)] by auto
  with assms(2) show ?thesis
  proof (induction ops arbitrary: w)
    case (Cons op ops)
    then show ?case using run_op_shown [OF assms(1), of op w key val] by (auto simp: run_ops_def)
  qed (simp add: run_ops_def)
qed

section \<open>Concrete instances\<close>

definition ex_store :: "(bytes, bytes) amap Store" where
  "ex_store = NewStore (map_backend False) (ascii ''bre:frame:'') 0"

lemma ex_store_good: "st_good amap_get ex_store"
  by (simp add: st_good_def ex_store_def NewStore_def map_backend_ok)

definition ex_ops :: "(bytes, bytes) amap cache_op list" where
  "ex_ops = [PutFrame [1] [7] 60, Claim (NewStore (map_backend False) (ascii ''bre:dedup:'') 0) [1] [1] 60, PutFrame [2] [8] 60]"

theorem cache_integrity_witness:
  "st_shown amap_get ex_store [] [1] = Some [7] \<or> (\<exists>ttl. PutFrame [1] [7] ttl \<in> set ex_ops)"
proof -
  have "fst (Store_Retrieve ex_store [1] (run_ops ex_store ex_ops [])) = Inr (Some [7])" by code_simp
  then obtain w' where "Store_Retrieve ex_store [1] (run_ops ex_store ex_ops []) = (Inr (Some [7]), w')"
    by (metis prod.collapse)
  moreover have "list_all (op_ok ex_store) ex_ops"
    by (simp add: ex_ops_def ex_store_def NewStore_def key_spaces_def ascii_def)
  ultimately show ?thesis using cache_integrity [OF ex_store_good] by blast
qed

end
