(* ===== verification/Retransmit.thy ===== *)
theory Retransmit
  imports Effects Shard_Common Cache_Store
begin

text \<open>
  The retransmitter of \<^verbatim>\<open>src/retransmit/retransmit.go\<close>: egress group derivation per frame version,
  cross-instance deduplication, multicast send on every egress socket, unicast send to a requester, and
  the opening and closing of its sockets.  The locale \<open>retransmit_contract\<close> is the Go interface
  \<^verbatim>\<open>Retransmitter\<close> that the NACK server and the proxy call, with the laws they rely on.
\<close>

section \<open>State\<close>

record 'b Retransmitter =
  rt_engine :: engine
  rt_beefEngine :: "plane_engine option"
  rt_ifaces :: "string list"
  rt_egressPort :: int
  rt_dedupWindow :: int
  rt_dedup :: "'b Store option"
  rt_unicastSrc :: "bytes option"
  rt_unicastConn :: bool
  rt_multicastLoop :: bool
  rt_sockets :: "(string, unit) amap"

definition new_Retransmitter :: "engine \<Rightarrow> string list \<Rightarrow> int \<Rightarrow> int \<Rightarrow> 'b Store option \<Rightarrow> 'b Retransmitter" where
  "new_Retransmitter eng ifaces egressPort dedupWindow dedup =
    \<lparr>rt_engine = eng, rt_beefEngine = None, rt_ifaces = ifaces, rt_egressPort = egressPort,
     rt_dedupWindow = dedupWindow, rt_dedup = dedup, rt_unicastSrc = None, rt_unicastConn = False,
     rt_multicastLoop = False, rt_sockets = []\<rparr>"

definition SetUnicastSource :: "bytes \<Rightarrow> 'b Retransmitter \<Rightarrow> 'b Retransmitter" where
  "SetUnicastSource ip r = r\<lparr>rt_unicastSrc := Some ip\<rparr>"

definition SetMulticastLoop :: "bool \<Rightarrow> 'b Retransmitter \<Rightarrow> 'b Retransmitter" where
  "SetMulticastLoop b r = r\<lparr>rt_multicastLoop := b\<rparr>"

definition SetBEEF :: "plane_engine option \<Rightarrow> 'b Retransmitter \<Rightarrow> 'b Retransmitter" where
  "SetBEEF pe r = r\<lparr>rt_beefEngine := pe\<rparr>"

section \<open>Opening and closing\<close>

text \<open>
  \<^verbatim>\<open>Open\<close>: \<open>opens name\<close> is the outcome of opening the egress socket of an interface, \<open>openUC\<close> that of the
  unicast socket, both decided by the operating system.
\<close>

fun open_egress :: "(string \<Rightarrow> go_error option) \<Rightarrow> string list \<Rightarrow> 'b Retransmitter \<Rightarrow> go_error option \<times> 'b Retransmitter" where
  "open_egress opens [] r = (None, r)"
| "open_egress opens (name # names) r =
     (case opens name of
        Some e \<Rightarrow> (Some (Errorf ''open egress socket''), r)
      | None \<Rightarrow> open_egress opens names (r\<lparr>rt_sockets := amap_put name () (rt_sockets r)\<rparr>))"

definition Retransmitter_Open :: "(string \<Rightarrow> go_error option) \<Rightarrow> go_error option \<Rightarrow> 'b Retransmitter
    \<Rightarrow> go_error option \<times> 'b Retransmitter" where
  "Retransmitter_Open opens openUC r =
    (case open_egress opens (rt_ifaces r) r of
       (Some e, r1) \<Rightarrow> (Some e, r1)
     | (None, r1) \<Rightarrow> (case openUC of
         Some e \<Rightarrow> (Some (Errorf ''open unicast retransmit socket''), r1)
       | None \<Rightarrow> (None, r1\<lparr>rt_unicastConn := True\<rparr>)))"

text \<open>\<^verbatim>\<open>Close\<close> closes every socket and returns the last error.\<close>

definition Retransmitter_Close :: "(string \<Rightarrow> go_error option) \<Rightarrow> go_error option \<Rightarrow> 'b Retransmitter \<Rightarrow> go_error option" where
  "Retransmitter_Close closes closeUC r =
    (let lastErr = foldl (\<lambda>le (name, _). case closes name of Some e \<Rightarrow> Some e | None \<Rightarrow> le) None (rt_sockets r)
     in if rt_unicastConn r then (case closeUC of Some e \<Rightarrow> Some e | None \<Rightarrow> lastErr) else lastErr)"

section \<open>Unicast\<close>

definition RetransmitUnicast :: "'b Retransmitter \<Rightarrow> bytes \<Rightarrow> UDPAddr option \<Rightarrow> ('b, 'z) io_scheme
    \<Rightarrow> go_error option \<times> ('b, 'z) io_scheme" where
  "RetransmitUnicast r raw d s =
    (case d of
       None \<Rightarrow> (Some (Errorf ''retransmit unicast: nil dst''), s)
     | Some a \<Rightarrow>
        if \<not> rt_unicastConn r then (Some (Errorf ''retransmit unicast: socket not open''), s)
        else io_write UnicastSock raw a s)"

section \<open>Group derivation\<close>

definition ctrl_addr :: "group_addr \<Rightarrow> 'b Retransmitter \<Rightarrow> u16 \<Rightarrow> UDPAddr" where
  "ctrl_addr ga r idx = \<lparr>uIP = ga (Prefix (rt_engine r)) (GroupID (rt_engine r)) idx, uPort = rt_egressPort r\<rparr>"

definition shard_addr :: "'b Retransmitter \<Rightarrow> u32 \<Rightarrow> UDPAddr" where
  "shard_addr r groupIdx = Addr_at (rt_engine r) groupIdx (rt_egressPort r)"

definition targetGroup :: "frame_pkg \<Rightarrow> group_addr \<Rightarrow> 'b Retransmitter \<Rightarrow> bytes \<Rightarrow> bytes \<Rightarrow> go_error + UDPAddr" where
  "targetGroup F ga r raw txID =
    (let dflt = Inr (shard_addr r (GroupIndex (rt_engine r) txID)) in
     if 7 \<le> length raw then
       (let ver = raw ! 6 in
        if ver = FrameVerV4 \<or> ver = FrameVerV6 then Inr (ctrl_addr ga r GroupBlockBroadcast)
        else if ver = FrameVerV5 then Inr (ctrl_addr ga r GroupSubtreeDataAnnounce)
        else if ver = FrameVerV9 then
          (case rt_beefEngine r of
             None \<Rightarrow> Inl (Errorf ''retransmit: BEEF frame cached but plane disabled'')
           | Some pe \<Rightarrow>
               if length raw < 88 then Inl (Errorf ''retransmit: BEEF frame too short for TopicID'')
               else Inr (shard_addr r (pe (go_slice 56 88 raw))))
        else if ver = FrameVerV3 then
          (case DecodeFragment F raw of
             Inl _ \<Rightarrow> dflt
           | Inr ff \<Rightarrow>
               (let ov = OrigFrameVer ff in
                if ov = FrameVerV4 \<or> ov = FrameVerV6 then Inr (ctrl_addr ga r GroupBlockBroadcast)
                else if ov = FrameVerV5 then Inr (ctrl_addr ga r GroupSubtreeDataAnnounce)
                else if ov = FrameVerV9 then
                  (case rt_beefEngine r of
                     None \<Rightarrow> Inl (Errorf ''retransmit: BEEF fragment cached but plane disabled'')
                   | Some pe \<Rightarrow> Inr (shard_addr r (pe (ff_SubtreeID ff))))
                else Inr (shard_addr r (GroupIndex (rt_engine r) (ff_TxID ff)))))
        else if ver = FrameVerV8 then
          (if 58 \<le> length raw then Inr (shard_addr r (ucast (Uint16 (go_slice 56 58 raw)))) else dflt)
        else dflt)
     else dflt)"

section \<open>Multicast\<close>

definition buildDedupKey :: "bytes \<Rightarrow> bytes" where
  "buildDedupKey raw = (if length raw < 56 then [] else go_slice 40 56 raw)"

text \<open>The dedup gate of \<^verbatim>\<open>Retransmit\<close>: \<open>True\<close> when the frame is suppressed.\<close>

definition dedup_gate :: "'b Retransmitter \<Rightarrow> bytes \<Rightarrow> ('b, 'z) io_scheme \<Rightarrow> bool \<times> ('b, 'z) io_scheme" where
  "dedup_gate r raw s =
    (case rt_dedup r of
       None \<Rightarrow> (False, s)
     | Some dd \<Rightarrow>
        (let key = buildDedupKey raw in
         if 0 < length key then
           (let ((set, err), w) = Store_SetNX dd key (ascii ''1'') (rt_dedupWindow r) (stg s);
                s1 = s\<lparr>stg := w\<rparr>
            in if \<not> set then (True, io_rec rec_RetransmitDedup s1) else (False, s1))
         else (False, s)))"

text \<open>Send on every egress socket, stopping at the first write error.\<close>

fun send_all :: "string list \<Rightarrow> bytes \<Rightarrow> UDPAddr \<Rightarrow> ('b, 'z) io_scheme \<Rightarrow> go_error option \<times> ('b, 'z) io_scheme" where
  "send_all [] raw d s = (None, s)"
| "send_all (name # names) raw d s =
     (case io_write (EgressSock name) raw d s of
        (Some e, s1) \<Rightarrow> (Some e, io_rec rec_CacheError s1)
      | (None, s1) \<Rightarrow> send_all names raw d s1)"

definition Retransmit :: "frame_pkg \<Rightarrow> group_addr \<Rightarrow> 'b Retransmitter \<Rightarrow> bytes \<Rightarrow> bytes \<Rightarrow> ('b, 'z) io_scheme
    \<Rightarrow> go_error option \<times> ('b, 'z) io_scheme" where
  "Retransmit F ga r raw txID s =
    (case dedup_gate r raw s of
       (True, s1) \<Rightarrow> (Some ErrDedupSuppressed, s1)
     | (False, s1) \<Rightarrow>
        (case targetGroup F ga r raw txID of
           Inl e \<Rightarrow> (Some e, s1)
         | Inr groupAddr \<Rightarrow> send_all (map fst (rt_sockets r)) raw groupAddr s1))"

section \<open>The interface Retransmitter\<close>

text \<open>A Go interface value is the record of its methods.\<close>

record 's RetransmitterI =
  ri_Retransmit :: "bytes \<Rightarrow> bytes \<Rightarrow> 's \<Rightarrow> go_error option \<times> 's"
  ri_RetransmitUnicast :: "bytes \<Rightarrow> UDPAddr option \<Rightarrow> 's \<Rightarrow> go_error option \<times> 's"

definition retransmitter_iface :: "frame_pkg \<Rightarrow> group_addr \<Rightarrow> 'b Retransmitter \<Rightarrow> ('b, 'z) io_scheme RetransmitterI" where
  "retransmitter_iface F ga r =
    \<lparr>ri_Retransmit = Retransmit F ga r, ri_RetransmitUnicast = RetransmitUnicast r\<rparr>"

text \<open>A multicast copy of \<open>raw\<close> on some egress socket, and the unicast copy for \<open>a\<close>.\<close>

definition is_mc :: "bytes \<Rightarrow> sent \<Rightarrow> bool" where
  "is_mc raw x \<longleftrightarrow> payload x = raw \<and> (\<exists>n. via x = EgressSock n)"

definition uc_copy :: "bytes \<Rightarrow> UDPAddr \<Rightarrow> sent" where
  "uc_copy raw a = \<lparr>via = UnicastSock, dst = a, payload = raw\<rparr>"

locale retransmit_contract =
  fixes RT :: "('b, 'z) io_scheme RetransmitterI"
    and fanout :: nat
  assumes mc_sends: "ri_Retransmit RT raw txID s = (e, s') \<Longrightarrow>
      \<exists>xs. sends s s' xs \<and> list_all (is_mc raw) xs \<and> io.more s' = io.more s
        \<and> (e = None \<longrightarrow> length xs = fanout) \<and> (e = Some ErrDedupSuppressed \<longrightarrow> xs = [])"
    and uc_sends: "ri_RetransmitUnicast RT raw d s = (e, s') \<Longrightarrow>
      io.more s' = io.more s \<and> stg s' = stg s \<and> rcd s' = rcd s
      \<and> (case e of None \<Rightarrow> \<exists>a. d = Some a \<and> sends s s' [uc_copy raw a] | Some _ \<Rightarrow> sends s s' [])"
    and mc_counts: "ri_Retransmit RT raw txID s = (e, s') \<Longrightarrow>
      (rcd s' = None \<longleftrightarrow> rcd s = None)
      \<and> (\<forall>m. m \<noteq> retransmitDedup \<and> m \<noteq> cacheErrors \<longrightarrow> ctr m s' = ctr m s)"

section \<open>Lemmas: the multicast path\<close>

lemma dedup_gate_frame:
  assumes "dedup_gate r raw s = (b, s')"
  shows "sends s s' []" and "io.more s' = io.more s"
  using assms
  by (auto simp: dedup_gate_def Let_def sends_def split: option.splits if_splits prod.splits)

definition mc_copies :: "string list \<Rightarrow> bytes \<Rightarrow> UDPAddr \<Rightarrow> sent list" where
  "mc_copies names raw d = map (\<lambda>n. \<lparr>via = EgressSock n, dst = d, payload = raw\<rparr>) names"

lemma list_all_mc_copies [simp]: "list_all (is_mc raw) (mc_copies names raw d)"
  by (auto simp: list_all_iff mc_copies_def is_mc_def)

lemma length_mc_copies [simp]: "length (mc_copies names raw d) = length names"
  by (simp add: mc_copies_def)

lemma send_all_sends:
  "send_all names raw d s = (e, s') \<Longrightarrow>
   \<exists>k. sends s s' (mc_copies (take k names) raw d) \<and> stg s' = stg s \<and> io.more s' = io.more s
     \<and> (case e of None \<Rightarrow> length names \<le> k | Some e \<Rightarrow> k < length names \<and> (\<exists>m. e = IOErr m))"
proof (induction names raw d s rule: send_all.induct)
  case (1 raw d s)
  then show ?case by (auto simp: mc_copies_def)
next
  case (2 name names raw d s)
  obtain e1 s1 where w: "io_write (EgressSock name) raw d s = (e1, s1)" by force
  note wr = io_write_wire [OF w] sends_write [OF w]
  show ?case
  proof (cases e1)
    case (Some x)
    with "2.prems" w have "e = Some x" "s' = io_rec rec_CacheError s1" by auto
    with wr Some show ?thesis by (auto intro!: exI [of _ 0] simp: mc_copies_def)
  next
    case None
    with "2.prems" w have "send_all names raw d s1 = (e, s')" by simp
    from "2.IH" [OF w [symmetric] None this] obtain k where
      k: "sends s1 s' (mc_copies (take k names) raw d)" "stg s' = stg s1" "io.more s' = io.more s1"
        "case e of None \<Rightarrow> length names \<le> k | Some e \<Rightarrow> k < length names \<and> (\<exists>m. e = IOErr m)"
      by blast
    have "sends s s' (mc_copies (take (Suc k) (name # names)) raw d)"
      using wr(7) k(1) None sends_trans [of s s1 _ s'] by (fastforce simp: mc_copies_def)
    with k wr show ?thesis by (auto intro!: exI [of _ "Suc k"] split: option.splits)
  qed
qed

text \<open>What a multicast retransmission puts on the wire, for each of its outcomes.\<close>

lemma Retransmit_sends:
  assumes "Retransmit F ga r raw txID s = (e, s')"
  shows "io.more s' = io.more s
    \<and> (case e of
         None \<Rightarrow> \<exists>grp. targetGroup F ga r raw txID = Inr grp \<and> sends s s' (mc_copies (map fst (rt_sockets r)) raw grp)
       | Some ErrDedupSuppressed \<Rightarrow> sends s s' []
       | Some (Errorf m) \<Rightarrow> targetGroup F ga r raw txID = Inl (Errorf m) \<and> sends s s' []
       | Some (IOErr m) \<Rightarrow> \<exists>grp k. targetGroup F ga r raw txID = Inr grp \<and> k < length (rt_sockets r)
            \<and> sends s s' (mc_copies (take k (map fst (rt_sockets r))) raw grp))"
proof -
  obtain b s1 where g: "dedup_gate r raw s = (b, s1)" by force
  note gf = dedup_gate_frame [OF g]
  have inl: "\<exists>m. e' = Errorf m" if "targetGroup F ga r raw txID = Inl e'" for e'
    using that by (auto simp: targetGroup_def Let_def split: if_splits option.splits sum.splits)
  show ?thesis
  proof (cases b)
    case True
    with assms g gf show ?thesis by (auto simp: Retransmit_def)
  next
    case False
    show ?thesis
    proof (cases "targetGroup F ga r raw txID")
      case (Inl e')
      with inl obtain m where "e' = Errorf m" by blast
      with assms g gf False Inl show ?thesis by (auto simp: Retransmit_def)
    next
      case (Inr grp)
      with assms g False have "send_all (map fst (rt_sockets r)) raw grp s1 = (e, s')"
        by (simp add: Retransmit_def)
      from send_all_sends [OF this] obtain k where
        k: "sends s1 s' (mc_copies (take k (map fst (rt_sockets r))) raw grp)" "io.more s' = io.more s1"
          "case e of None \<Rightarrow> length (map fst (rt_sockets r)) \<le> k
            | Some e \<Rightarrow> k < length (map fst (rt_sockets r)) \<and> (\<exists>m. e = IOErr m)"
        by blast
      have "sends s s' (mc_copies (take k (map fst (rt_sockets r))) raw grp)"
        using gf(1) k(1) sends_trans [of s s1 "[]" s'] by simp
      with k gf(2) Inr show ?thesis by (auto split: option.splits)
    qed
  qed
qed

lemma RetransmitUnicast_sends:
  assumes "RetransmitUnicast r raw d s = (e, s')"
  shows "io.more s' = io.more s \<and> stg s' = stg s \<and> rcd s' = rcd s
    \<and> (case e of None \<Rightarrow> \<exists>a. d = Some a \<and> sends s s' [uc_copy raw a] | Some _ \<Rightarrow> sends s s' [])"
  using assms io_write_wire [of UnicastSock raw _ s e s'] sends_write [of UnicastSock raw _ s e s']
  by (auto simp: RetransmitUnicast_def uc_copy_def split: option.splits if_splits)

text \<open>With the network up and no dedup store, a frame with a group is sent.\<close>

lemma send_all_up: "net_up s \<Longrightarrow> send_all names raw d s = (e, s') \<Longrightarrow> e = None"
proof (induction names raw d s rule: send_all.induct)
  case (2 name names raw d s)
  obtain e1 s1 where w: "io_write (EgressSock name) raw d s = (e1, s1)" by force
  with io_write_up [OF "2.prems"(1) w] "2.IH" [OF w [symmetric]] "2.prems" sends_net_up [OF sends_write [OF w]]
  show ?case by simp
qed simp

lemma Retransmit_up:
  assumes "net_up s" and "rt_dedup r = None" and "targetGroup F ga r raw txID = Inr grp"
  shows "\<exists>s'. Retransmit F ga r raw txID s = (None, s') \<and> sends s s' (mc_copies (map fst (rt_sockets r)) raw grp)"
proof -
  obtain e s' where re: "Retransmit F ga r raw txID s = (e, s')" by force
  with assms have "e = None"
    using send_all_up [OF assms(1)] by (auto simp: Retransmit_def dedup_gate_def)
  with Retransmit_sends [OF re] assms(3) re show ?thesis by auto
qed

lemma RetransmitUnicast_up:
  assumes "net_up s" and "rt_unicastConn r"
  shows "\<exists>s'. RetransmitUnicast r raw (Some a) s = (None, s')"
proof -
  obtain e s' where w: "io_write UnicastSock raw a s = (e, s')" by force
  with io_write_up [OF assms(1) w] assms(2) show ?thesis by (simp add: RetransmitUnicast_def)
qed

text \<open>The only counters a retransmission touches are its own: suppressed frames and write errors.\<close>

definition mc_quiet :: "('b, 'z) io_scheme \<Rightarrow> ('b, 'z) io_scheme \<Rightarrow> bool" where
  "mc_quiet s s' \<longleftrightarrow> (rcd s' = None \<longleftrightarrow> rcd s = None)
     \<and> (\<forall>m. m \<noteq> retransmitDedup \<and> m \<noteq> cacheErrors \<longrightarrow> ctr m s' = ctr m s)"

lemma send_all_quiet: "send_all names raw d s = (e, s') \<Longrightarrow> mc_quiet s s'"
proof (induction names raw d s rule: send_all.induct)
  case (2 name names raw d s)
  obtain e1 s1 where w: "io_write (EgressSock name) raw d s = (e1, s1)" by force
  with "2.prems" "2.IH" [OF w [symmetric]] show ?case
    by (cases e1) (auto simp: mc_quiet_def recorder_defs io_write_ctr io_write_wire(3) [OF w])
qed (simp add: mc_quiet_def)

lemma Retransmit_quiet:
  assumes "Retransmit F ga r raw txID s = (e, s')"
  shows "mc_quiet s s'"
proof -
  obtain b s1 where g: "dedup_gate r raw s = (b, s1)" by force
  have q1: "mc_quiet s s1"
    using g by (auto simp: dedup_gate_def Let_def mc_quiet_def recorder_defs ctr_def
        split: option.splits if_splits prod.splits)
  show ?thesis
    using assms g q1 send_all_quiet [of "map fst (rt_sockets r)" raw _ s1 e s']
    by (auto simp: Retransmit_def mc_quiet_def split: bool.splits sum.splits)
qed

interpretation rt: retransmit_contract "retransmitter_iface F ga r" "length (rt_sockets r)" for F ga r
proof unfold_locales
  fix raw txID e s s'
  assume "ri_Retransmit (retransmitter_iface F ga r) raw txID s = (e, s')"
  then have re: "Retransmit F ga r raw txID s = (e, s')" by (simp add: retransmitter_iface_def)
  from Retransmit_sends [OF re]
  show "\<exists>xs. sends s s' xs \<and> list_all (is_mc raw) xs \<and> io.more s' = io.more s
        \<and> (e = None \<longrightarrow> length xs = length (rt_sockets r)) \<and> (e = Some ErrDedupSuppressed \<longrightarrow> xs = [])"
    by (cases e) (force split: go_error.splits simp: length_mc_copies)+
next
  fix raw d e s s'
  assume "ri_RetransmitUnicast (retransmitter_iface F ga r) raw d s = (e, s')"
  then show "io.more s' = io.more s \<and> stg s' = stg s \<and> rcd s' = rcd s
      \<and> (case e of None \<Rightarrow> \<exists>a. d = Some a \<and> sends s s' [uc_copy raw a] | Some _ \<Rightarrow> sends s s' [])"
    by (simp add: retransmitter_iface_def RetransmitUnicast_sends)
next
  fix raw txID e s s'
  assume "ri_Retransmit (retransmitter_iface F ga r) raw txID s = (e, s')"
  then show "(rcd s' = None \<longleftrightarrow> rcd s = None)
      \<and> (\<forall>m. m \<noteq> retransmitDedup \<and> m \<noteq> cacheErrors \<longrightarrow> ctr m s' = ctr m s)"
    using Retransmit_quiet by (fastforce simp: retransmitter_iface_def mc_quiet_def)
qed

section \<open>Lemmas: deduplication\<close>

lemma length_buildDedupKey: "56 \<le> length raw \<Longrightarrow> length (buildDedupKey raw) = 16"
  by (simp add: buildDedupKey_def)

lemma dedup_gate_setnx:
  assumes "rt_dedup r = Some dd" and "56 \<le> length raw" and "dedup_gate r raw s = (b, s')"
  obtains e where "Store_SetNX dd (buildDedupKey raw) (ascii ''1'') (rt_dedupWindow r) (stg s) = ((\<not> b, e), stg s')"
  using assms length_buildDedupKey [OF assms(2)]
  by (auto simp: dedup_gate_def Let_def split: if_splits prod.splits)

lemma dedup_gate_eval:
  assumes "rt_dedup r = Some dd" and "56 \<le> length raw"
    and "Store_SetNX dd (go_slice 40 56 raw) (ascii ''1'') (rt_dedupWindow r) (stg s) = ((b, e), w)"
  shows "dedup_gate r raw s = (if b then (False, s\<lparr>stg := w\<rparr>) else (True, io_rec rec_RetransmitDedup (s\<lparr>stg := w\<rparr>)))"
proof -
  have "go_slice 40 56 raw \<noteq> []" using assms(2) by (auto simp: go_slice_def)
  with assms show ?thesis by (simp add: dedup_gate_def buildDedupKey_def Let_def)
qed

lemma Retransmit_gate:
  assumes "Retransmit F ga r raw txID s = (e, s')" and "dedup_gate r raw s = (b, s1)"
  shows "stg s' = stg s1" and "b \<longleftrightarrow> e = Some ErrDedupSuppressed"
proof -
  have inl: "e' \<noteq> ErrDedupSuppressed" if "targetGroup F ga r raw txID = Inl e'" for e'
    using that by (auto simp: targetGroup_def Let_def split: if_splits option.splits sum.splits)
  show "stg s' = stg s1"
    using assms send_all_sends [of _ raw _ s1 e s']
    by (fastforce simp: Retransmit_def split: bool.splits sum.splits)
  show "b \<longleftrightarrow> e = Some ErrDedupSuppressed"
    using assms inl send_all_sends [of _ raw _ s1 e s']
    by (fastforce simp: Retransmit_def split: bool.splits sum.splits)
qed

section \<open>Properties\<close>

text \<open>
  C22: What \<^verbatim>\<open>Retransmit\<close> reports is what happened on the wire.  Success means one copy of the
  unmodified frame on every egress socket, addressed to the frame's group; a dedup suppression or a
  group-derivation error means nothing was sent; a write error means that only the sockets in front of the
  failing one carried the frame.
\<close>

theorem retransmit_wire:
  "case Retransmit F ga r raw txID s of
     (None, s') \<Rightarrow> \<exists>grp. targetGroup F ga r raw txID = Inr grp
        \<and> sends s s' (mc_copies (map fst (rt_sockets r)) raw grp)
   | (Some ErrDedupSuppressed, s') \<Rightarrow> sends s s' []
   | (Some (Errorf m), s') \<Rightarrow> targetGroup F ga r raw txID = Inl (Errorf m) \<and> sends s s' []
   | (Some (IOErr m), s') \<Rightarrow> \<exists>grp k. targetGroup F ga r raw txID = Inr grp \<and> k < length (rt_sockets r)
        \<and> sends s s' (mc_copies (take k (map fst (rt_sockets r))) raw grp)"
proof -
  obtain e s' where "Retransmit F ga r raw txID s = (e, s')" by force
  with Retransmit_sends [OF this] show ?thesis
    by (auto split: option.splits go_error.splits)
qed

text \<open>
  C9: At most one retransmission of a frame per dedup window across instances.  Once one instance got past
  the claim for a (HashKey, SeqNum), every later multicast of the same (HashKey, SeqNum) on the same dedup store,
  by this or another instance, is suppressed and sends nothing for as long as the claim stands.
\<close>

theorem dedup_once:
  assumes "st_good vw dd" and "rt_dedup r1 = Some dd" and "rt_dedup r2 = Some dd"
    and "0 < rt_dedupWindow r1" and "0 < rt_dedupWindow r2"
    and "56 \<le> length raw1" and "56 \<le> length raw2" and "go_slice 40 56 raw1 = go_slice 40 56 raw2"
    and first: "Retransmit F ga r1 raw1 tx1 s = (e1, s1)" and "e1 \<noteq> Some ErrDedupSuppressed"
    and stands: "st_claimed vw dd (stg s1) (go_slice 40 56 raw1) \<longrightarrow> st_claimed vw dd (stg s2) (go_slice 40 56 raw1)"
    and second: "Retransmit F ga r2 raw2 tx2 s2 = (e2, s3)"
  shows "e2 = Some ErrDedupSuppressed \<and> sends s2 s3 []"
proof -
  have key: "buildDedupKey raw1 = go_slice 40 56 raw1" "buildDedupKey raw2 = go_slice 40 56 raw1"
    using assms(6-8) by (simp_all add: buildDedupKey_def)
  obtain b1 t1 where g1: "dedup_gate r1 raw1 s = (b1, t1)" by force
  obtain b2 t2 where g2: "dedup_gate r2 raw2 s2 = (b2, t2)" by force
  note R1 = Retransmit_gate [OF first g1] and R2 = Retransmit_gate [OF second g2]
  obtain x1 where "Store_SetNX dd (buildDedupKey raw1) (ascii ''1'') (rt_dedupWindow r1) (stg s) = ((True, x1), stg t1)"
    using dedup_gate_setnx [OF assms(2,6) g1] R1(2) assms(10) by auto
  then have "st_claimed vw dd (stg s2) (go_slice 40 56 raw1)"
    using dd.setnx_win [OF assms(1,4)] stands R1(1) key by auto
  moreover obtain x2 where "Store_SetNX dd (buildDedupKey raw2) (ascii ''1'') (rt_dedupWindow r2) (stg s2) = ((\<not> b2, x2), stg t2)"
    using dedup_gate_setnx [OF assms(3,7) g2] by blast
  ultimately have b2
    using dd.claimed_not_won [OF assms(1,5)] key by metis
  then have "e2 = Some ErrDedupSuppressed" using R2 by simp
  then show ?thesis using Retransmit_sends [OF second] by auto
qed

text \<open>
  C29: No suppression across flows or sequence numbers.  A retransmission claims nothing but its own
  (HashKey, SeqNum): a frame with another pair that was unclaimed before it is still let through by the dedup gate
  afterwards, unless the storage itself fails.
\<close>

theorem dedup_no_cross_flow:
  assumes "st_good vw dd" and "rt_dedup r = Some dd" and "0 < rt_dedupWindow r"
    and "56 \<le> length raw1" and "56 \<le> length raw2" and "go_slice 40 56 raw1 \<noteq> go_slice 40 56 raw2"
    and free: "\<not> st_claimed vw dd (stg s) (go_slice 40 56 raw2)"
    and first: "Retransmit F ga r raw1 tx1 s = (e1, s1)"
    and up: "Store_SetNX dd (go_slice 40 56 raw2) (ascii ''1'') (rt_dedupWindow r) (stg s1) = ((b, None), w)"
  shows "dedup_gate r raw2 s1 = (False, s1\<lparr>stg := w\<rparr>)"
proof -
  have key: "buildDedupKey raw1 = go_slice 40 56 raw1" "buildDedupKey raw2 = go_slice 40 56 raw2"
    using assms(4,5) by (simp_all add: buildDedupKey_def)
  obtain b1 t1 where g1: "dedup_gate r raw1 s = (b1, t1)" by force
  obtain x1 where "Store_SetNX dd (go_slice 40 56 raw1) (ascii ''1'') (rt_dedupWindow r) (stg s) = ((\<not> b1, x1), stg s1)"
    using dedup_gate_setnx [OF assms(2,4) g1] Retransmit_gate(1) [OF first g1] key by metis
  then have "\<not> st_claimed vw dd (stg s1) (go_slice 40 56 raw2)"
    using dd.setnx_fresh [OF assms(1,3)] assms(6) free by metis
  then have b using dd.setnx_lose [OF assms(1,3)] up by (cases b) auto
  with dedup_gate_eval [OF assms(2,5) up] show ?thesis by simp
qed


text \<open>
  The converse of the dedup contract fails: a storage error alone suppresses the frame.  When \<^verbatim>\<open>SetNX\<close>
  returns an error, \<^verbatim>\<open>Retransmit\<close> reports \<^verbatim>\<open>ErrDedupSuppressed\<close> and sends nothing, although no sibling holds the
  claim.
\<close>

lemma dedup_error_suppresses:
  assumes "rt_dedup r = Some dd" and "56 \<le> length raw"
    and "Store_SetNX dd (go_slice 40 56 raw) (ascii ''1'') (rt_dedupWindow r) (stg s) = ((False, Some err), w)"
  shows "Retransmit F ga r raw txID s = (Some ErrDedupSuppressed, io_rec rec_RetransmitDedup (s\<lparr>stg := w\<rparr>))"
  using dedup_gate_eval [OF assms] by (simp add: Retransmit_def)

section \<open>Concrete instances\<close>

definition ex_frame :: "u64 \<Rightarrow> u64 \<Rightarrow> byte \<Rightarrow> bytes" where
  "ex_frame h n ver = PutUint32 MagicBSV @ PutUint16 ProtoVer @ [ver] @ replicate 33 0 @ PutUint64 h @ PutUint64 n @ replicate 48 0"

definition ex_net :: net where
  "ex_net = \<lparr>wr_fail = (\<lambda>_. None), wr_count = 0, wire = []\<rparr>"

definition ex_io :: "(bytes, bytes) amap io" where
  "ex_io = \<lparr>stg = [], nw = ex_net, rcd = Some (new_Recorder 1)\<rparr>"

definition ex_dedup :: "(bytes, bytes) amap Store" where
  "ex_dedup = NewStore (map_backend False) (ascii ''bre:dedup:'') 0"

definition ex_rt :: "(bytes, bytes) amap Retransmitter" where
  "ex_rt = snd (Retransmitter_Open (\<lambda>_. None) None (new_Retransmitter ref_engine [''eth0''] 9001 60 (Some ex_dedup)))"

lemma ex_dedup_good: "st_good amap_get ex_dedup"
  by (simp add: st_good_def ex_dedup_def NewStore_def map_backend_ok)

lemma ex_rt_dedup: "rt_dedup ex_rt = Some ex_dedup" "rt_dedupWindow ex_rt = 60"
  by (simp_all add: ex_rt_def Retransmitter_Open_def new_Retransmitter_def)

lemma length_ex_frame [simp]: "length (ex_frame h n v) = 104"
  by (simp add: ex_frame_def)

lemma key_ex_frame: "go_slice 40 56 (ex_frame h n v) = PutUint64 h @ PutUint64 n"
  by (simp add: ex_frame_def go_slice_def)

theorem dedup_once_witness:
  "fst (Retransmit ref_frame_pkg ref_group_addr ex_rt (ex_frame 1 2 2) [0]
     (snd (Retransmit ref_frame_pkg ref_group_addr ex_rt (ex_frame 1 2 2) [0] ex_io))) = Some ErrDedupSuppressed"
proof -
  let ?r1 = "Retransmit ref_frame_pkg ref_group_addr ex_rt (ex_frame 1 2 2) [0] ex_io"
  have e1: "fst ?r1 = None" by code_simp
  have "?r1 = (fst ?r1, snd ?r1)" by simp
  with e1 dedup_once [where F = ref_frame_pkg and ga = ref_group_addr and ?r1.0 = ex_rt and ?r2.0 = ex_rt
      and ?raw1.0 = "ex_frame 1 2 2" and ?raw2.0 = "ex_frame 1 2 2" and ?tx1.0 = "[0]" and ?tx2.0 = "[0]"
      and s = ex_io and ?e1.0 = "fst ?r1" and ?s1.0 = "snd ?r1" and ?s2.0 = "snd ?r1"
      and ?e2.0 = "fst (Retransmit ref_frame_pkg ref_group_addr ex_rt (ex_frame 1 2 2) [0] (snd ?r1))"
      and ?s3.0 = "snd (Retransmit ref_frame_pkg ref_group_addr ex_rt (ex_frame 1 2 2) [0] (snd ?r1))",
      OF ex_dedup_good]
  show ?thesis by (simp add: ex_rt_dedup prod_eq_iff)
qed

theorem dedup_no_cross_flow_witness:
  "fst (dedup_gate ex_rt (ex_frame 1 3 2)
     (snd (Retransmit ref_frame_pkg ref_group_addr ex_rt (ex_frame 1 2 2) [0] ex_io))) = False"
proof -
  let ?r1 = "Retransmit ref_frame_pkg ref_group_addr ex_rt (ex_frame 1 2 2) [0] ex_io"
  let ?x = "Store_SetNX ex_dedup (go_slice 40 56 (ex_frame 1 3 2)) (ascii ''1'') 60 (stg (snd ?r1))"
  have x: "?x = ((fst (fst ?x), None), snd ?x)" "\<not> st_claimed amap_get ex_dedup (stg ex_io) (go_slice 40 56 (ex_frame 1 3 2))"
    by code_simp+
  then show ?thesis
    using dedup_no_cross_flow [where r = ex_rt and ?raw1.0 = "ex_frame 1 2 2" and ?raw2.0 = "ex_frame 1 3 2"
        and s = ex_io and ?e1.0 = "fst ?r1" and ?s1.0 = "snd ?r1" and F = ref_frame_pkg and ga = ref_group_addr
        and ?tx1.0 = "[0]" and b = "fst (fst ?x)" and w = "snd ?x", OF ex_dedup_good]
    by (simp add: ex_rt_dedup key_ex_frame)
qed


end
