(* ===== verification/Nack_Proxy.thy ===== *)
theory Nack_Proxy
  imports Retransmit
begin

text \<open>
  Cross-domain NACK proxying, \<^verbatim>\<open>src/proxy/proxy.go\<close>: the bounded job queue, the in-flight claim, the fetch of a
  frame from an upstream endpoint and the re-caching and delivery of what came back.  The environment
  supplies, per fetch, the outcome of name resolution and of opening the socket, and the datagrams that
  arrive before the read deadline; running out of them is the timeout.
\<close>

section \<open>Constants and configuration\<close>

definition nackSize :: nat where "nackSize = 64"
definition respSize :: nat where "respSize = 16"
definition msgTypeNACK :: byte where "msgTypeNACK = 0x10"
definition msgTypeMISS :: byte where "msgTypeMISS = 0x11"
definition msgTypeACK :: byte where "msgTypeACK = 0x12"
definition FlagProxied :: byte where "FlagProxied = 0x01"

lemmas msg_types = msgTypeNACK_def msgTypeMISS_def msgTypeACK_def

record TTLConfig =
  ttl_Tx :: int
  ttl_Block :: int
  ttl_Subtree :: int
  ttl_Anchor :: int
  ttl_BEEF :: int

record ('b, 's) ProxyConfig =
  Upstreams :: "string list"
  SourceIP :: "bytes option"
  pc_Timeout :: int
  MaxEndpoints :: int
  pc_DedupWindow :: int
  pc_Workers :: int
  QueueDepth :: int
  pc_Dedup :: "'b Store option"
  pc_Cache :: "'b Store"
  pc_Retrans :: "'s RetransmitterI"
  pc_TTLs :: TTLConfig
  pc_Multicast :: bool
  pc_Unicast :: bool

definition proxy_New :: "('b, 's) ProxyConfig \<Rightarrow> ('b, 's) ProxyConfig" where
  "proxy_New cfg =
    (let c1 = (if pc_Timeout cfg \<le> 0 then cfg\<lparr>pc_Timeout := 300000000\<rparr> else cfg);
         c2 = (if pc_Workers c1 \<le> 0 then c1\<lparr>pc_Workers := 4\<rparr> else c1);
         c3 = (if QueueDepth c2 \<le> 0 then c2\<lparr>QueueDepth := 1024\<rparr> else c2);
         c4 = (if MaxEndpoints c3 \<le> 0 \<or> int (length (Upstreams c3)) < MaxEndpoints c3
               then c3\<lparr>MaxEndpoints := int (length (Upstreams c3))\<rparr> else c3);
         c5 = (if pc_DedupWindow c4 \<le> 0 then c4\<lparr>pc_DedupWindow := 60000000000\<rparr> else c4)
     in c5)"

section \<open>The queue\<close>

record job =
  j_hashKey :: u64
  j_seq :: u64
  j_subtree :: bytes
  j_requester :: "UDPAddr option"

record 'b pworld = "'b io" +
  pq :: "job list"

definition Enqueue :: "('b, 's) ProxyConfig \<Rightarrow> u64 \<Rightarrow> u64 \<Rightarrow> bytes \<Rightarrow> UDPAddr option
    \<Rightarrow> ('b, 'z) pworld_scheme \<Rightarrow> bool \<times> ('b, 'z) pworld_scheme" where
  "Enqueue cfg hashKey seq subtree requester s =
    (if int (length (pq s)) < QueueDepth cfg
     then (True, s\<lparr>pq := pq s @ [\<lparr>j_hashKey = hashKey, j_seq = seq, j_subtree = subtree, j_requester = requester\<rparr>]\<rparr>)
     else (False, io_rec rec_ProxyQueueDropped s))"

section \<open>Fetch\<close>

text \<open>
  What the environment decides during one fetch: the result of resolving a host:port, of opening a
  socket on a local address, and the datagrams that arrive before the read deadline.  A UDP datagram
  always fits the 64 KiB read buffer.
\<close>

record fetch_env =
  fe_resolve :: "string \<Rightarrow> go_error + UDPAddr"
  fe_listen :: "string \<Rightarrow> go_error option"
  fe_replies :: "bytes list"

text \<open>\<^verbatim>\<open>net.JoinHostPort\<close>: a host with a colon or a percent sign is bracketed.\<close>

definition JoinHostPort :: "string \<Rightarrow> string \<Rightarrow> string" where
  "JoinHostPort host port =
    (if CHR '':'' \<in> set host \<or> CHR ''%'' \<in> set host then ''['' @ host @ '']:'' @ port else host @ '':'' @ port)"

definition fetch_laddr :: "('b, 's) ProxyConfig \<Rightarrow> string" where
  "fetch_laddr cfg = (case SourceIP cfg of None \<Rightarrow> ''[::]:0'' | Some ip \<Rightarrow> JoinHostPort (IP_String ip) ''0'')"

definition proxied_nack :: "job \<Rightarrow> bytes" where
  "proxied_nack j =
    (let b0 = replicate nackSize 0;
         b1 = put_at 0 (PutUint32 MagicBSV) b0;
         b2 = put_at 4 (PutUint16 ProtoVer) b1;
         b3 = put_at 6 [msgTypeNACK] b2;
         b4 = put_at 7 [FlagProxied] b3;
         b5 = put_at 8 (PutUint64 (j_hashKey j)) b4;
         b6 = put_at 16 (PutUint64 (j_seq j)) b5;
         b7 = put_at 24 (PutUint64 (j_seq j)) b6
     in put_at 32 (copy_array 32 (j_subtree j)) b7)"

definition is_frame_return :: "bytes \<Rightarrow> bool" where
  "is_frame_return d \<longleftrightarrow> frame_HeaderSize \<le> length d \<and> Uint32 (go_slice 0 4 d) = MagicBSV
     \<and> d ! 6 \<noteq> msgTypeACK \<and> d ! 6 \<noteq> msgTypeMISS"

fun read_loop :: "bytes list \<Rightarrow> bytes option" where
  "read_loop [] = None"
| "read_loop (d # ds) =
     (if is_frame_return d then Some d
      else if length d = respSize \<and> d ! 6 = msgTypeMISS then None
      else read_loop ds)"

definition fetch :: "('b, 's) ProxyConfig \<Rightarrow> fetch_env \<Rightarrow> string \<Rightarrow> job \<Rightarrow> ('b, 'z) io_scheme
    \<Rightarrow> bytes option \<times> ('b, 'z) io_scheme" where
  "fetch cfg fe endpoint j s =
    (case fe_resolve fe endpoint of
       Inl _ \<Rightarrow> (None, s)
     | Inr addr \<Rightarrow>
        (let laddr = fetch_laddr cfg in
         case fe_listen fe laddr of
           Some _ \<Rightarrow> (None, s)
         | None \<Rightarrow>
            (case io_write (ProxySock laddr) (proxied_nack j) addr s of
               (Some _, s1) \<Rightarrow> (None, s1)
             | (None, s1) \<Rightarrow> (read_loop (fe_replies fe), s1))))"

section \<open>Re-caching\<close>

definition ttlFor :: "TTLConfig \<Rightarrow> byte \<Rightarrow> int" where
  "ttlFor ttls ver =
    (if ver = FrameVerV4 then ttl_Block ttls
     else if ver = FrameVerV5 then ttl_Subtree ttls
     else if ver = FrameVerV6 then ttl_Anchor ttls
     else if ver = FrameVerV9 then ttl_BEEF ttls
     else ttl_Tx ttls)"

definition proxy_store :: "('b, 's) ProxyConfig \<Rightarrow> bytes \<Rightarrow> 'b \<Rightarrow> go_error option \<times> 'b" where
  "proxy_store cfg raw w =
    (if length raw < frame_HeaderSize then (Some (Errorf ''proxy: short frame''), w)
     else Store_Store (pc_Cache cfg) (go_slice 40 48 raw @ go_slice 48 56 raw) raw (ttlFor (pc_TTLs cfg) (raw ! 6)) w)"

section \<open>Recovery\<close>

definition gap_key :: "job \<Rightarrow> bytes" where
  "gap_key j = PutUint64 (j_hashKey j) @ PutUint64 (j_seq j)"

text \<open>The in-flight claim is per gap, and per requester when the frame goes back by unicast.\<close>

definition claim_key :: "('b, 's) ProxyConfig \<Rightarrow> job \<Rightarrow> bytes" where
  "claim_key cfg j =
    (case j_requester j of
       Some a \<Rightarrow> if pc_Unicast cfg
                 then gap_key j @ uIP a @ [word_of_int (uPort a div 256), word_of_int (uPort a)]
                 else gap_key j
     | None \<Rightarrow> gap_key j)"

definition claim_gap :: "('b, 's) ProxyConfig \<Rightarrow> job \<Rightarrow> ('b, 'z) io_scheme \<Rightarrow> bool \<times> ('b, 'z) io_scheme" where
  "claim_gap cfg j s =
    (case pc_Dedup cfg of
       None \<Rightarrow> (True, s)
     | Some dd \<Rightarrow>
        (let ((set, err), w) = Store_SetNX dd (claim_key cfg j) (ascii ''1'') (pc_DedupWindow cfg) (stg s);
             s1 = s\<lparr>stg := w\<rparr>
         in if err \<noteq> None then (True, s1)
            else if \<not> set then (False, io_rec rec_ProxyInflightDedup s1)
            else (True, s1)))"

text \<open>What happens to a frame that came back: re-cache, multicast and unicast as configured.\<close>

definition deliver_mc :: "('b, ('b, 'z) io_scheme) ProxyConfig \<Rightarrow> bytes \<Rightarrow> ('b, 'z) io_scheme \<Rightarrow> ('b, 'z) io_scheme" where
  "deliver_mc cfg raw s =
    (if pc_Multicast cfg then
       (case ri_Retransmit (pc_Retrans cfg) raw (go_slice 8 40 raw) s of
          (None, t) \<Rightarrow> io_rec rec_Retransmit t
        | (Some _, t) \<Rightarrow> t)
     else s)"

definition deliver_uc :: "('b, ('b, 'z) io_scheme) ProxyConfig \<Rightarrow> job \<Rightarrow> bytes \<Rightarrow> ('b, 'z) io_scheme \<Rightarrow> ('b, 'z) io_scheme" where
  "deliver_uc cfg j raw s =
    (if pc_Unicast cfg \<and> j_requester j \<noteq> None then
       (case ri_RetransmitUnicast (pc_Retrans cfg) raw (j_requester j) s of
          (None, t) \<Rightarrow> io_rec rec_UnicastRetransmit t
        | (Some _, t) \<Rightarrow> t)
     else s)"

definition deliver :: "('b, ('b, 'z) io_scheme) ProxyConfig \<Rightarrow> job \<Rightarrow> bytes \<Rightarrow> ('b, 'z) io_scheme \<Rightarrow> ('b, 'z) io_scheme" where
  "deliver cfg j raw s =
    (let (_, w) = proxy_store cfg raw (stg s)
     in io_rec rec_ProxyRecovered (deliver_uc cfg j raw (deliver_mc cfg raw (s\<lparr>stg := w\<rparr>))))"

text \<open>
  The loop over the upstreams, by index: \<open>env i\<close> says whether the context is cancelled when iteration
  \<open>i\<close> starts and gives the environment of its fetch.  An index beyond \<open>Upstreams\<close> would be a run-time
  panic, \<open>None\<close>.  The outcome names the return statement that is reached.
\<close>

datatype outcome = InFlight | Cancelled | Recovered nat bytes | Exhausted

fun try_upstreams :: "('b, ('b, 'z) io_scheme) ProxyConfig \<Rightarrow> (nat \<Rightarrow> bool \<times> fetch_env) \<Rightarrow> job \<Rightarrow> nat list
    \<Rightarrow> ('b, 'z) io_scheme \<Rightarrow> (outcome \<times> ('b, 'z) io_scheme) option" where
  "try_upstreams cfg env j [] s = Some (Exhausted, io_rec (rec_ProxyFailed ''exhausted'') s)"
| "try_upstreams cfg env j (i # is) s =
     (if fst (env i) then Some (Cancelled, s)
      else if length (Upstreams cfg) \<le> i then None
      else (case fetch cfg (snd (env i)) (Upstreams cfg ! i) j s of
              (None, s1) \<Rightarrow> try_upstreams cfg env j is s1
            | (Some raw, s1) \<Rightarrow> Some (Recovered i raw, deliver cfg j raw s1)))"

definition proxy_recover :: "('b, ('b, 'z) io_scheme) ProxyConfig \<Rightarrow> (nat \<Rightarrow> bool \<times> fetch_env) \<Rightarrow> job
    \<Rightarrow> ('b, 'z) io_scheme \<Rightarrow> (outcome \<times> ('b, 'z) io_scheme) option" where
  "proxy_recover cfg env j s =
    (case claim_gap cfg j (io_rec rec_ProxyRequest s) of
       (False, s1) \<Rightarrow> Some (InFlight, s1)
     | (True, s1) \<Rightarrow> try_upstreams cfg env j [0..<nat (MaxEndpoints cfg)] s1)"

text \<open>One turn of a worker of \<^verbatim>\<open>Start\<close>: it takes the oldest job and recovers it; \<open>None\<close> inside is an empty queue.\<close>

definition proxy_worker :: "('b, ('b, 'z) pworld_scheme) ProxyConfig \<Rightarrow> (nat \<Rightarrow> bool \<times> fetch_env)
    \<Rightarrow> ('b, 'z) pworld_scheme \<Rightarrow> (outcome option \<times> ('b, 'z) pworld_scheme) option" where
  "proxy_worker cfg env s =
    (case pq s of
       [] \<Rightarrow> Some (None, s)
     | j # js \<Rightarrow> map_option (\<lambda>(oc, s'). (Some oc, s')) (proxy_recover cfg env j (s\<lparr>pq := js\<rparr>)))"

section \<open>Lemmas: configuration, claims, replies\<close>

definition proxy_cfg_ok :: "('b, 's) ProxyConfig \<Rightarrow> bool" where
  "proxy_cfg_ok cfg \<longleftrightarrow> 0 < pc_Timeout cfg \<and> 0 < pc_Workers cfg \<and> 0 < QueueDepth cfg \<and> 0 < pc_DedupWindow cfg
     \<and> MaxEndpoints cfg \<le> int (length (Upstreams cfg))"

lemma proxy_New_ok: "proxy_cfg_ok (proxy_New cfg)"
  by (simp add: proxy_New_def proxy_cfg_ok_def Let_def)

definition is_miss :: "bytes \<Rightarrow> bool" where
  "is_miss d \<longleftrightarrow> length d = respSize \<and> d ! 6 = msgTypeMISS"

lemma miss_no_frame: "is_miss d \<Longrightarrow> \<not> is_frame_return d"
  by (simp add: is_miss_def is_frame_return_def respSize_def frame_HeaderSize_def)

lemma read_loop_Some:
  "read_loop ds = Some d \<longleftrightarrow> (\<exists>pre post. ds = pre @ d # post \<and> is_frame_return d
     \<and> list_all (\<lambda>x. \<not> is_frame_return x \<and> \<not> is_miss x) pre)"
proof (induction ds)
  case (Cons x ds)
  show ?case
  proof (cases "is_frame_return x \<or> is_miss x")
    case True
    then show ?thesis by (auto simp: Cons_eq_append_conv is_miss_def)
  next
    case False
    then have "read_loop (x # ds) = read_loop ds" by (auto simp: is_miss_def)
    moreover have "(\<exists>pre post. x # ds = pre @ d # post \<and> is_frame_return d
        \<and> list_all (\<lambda>x. \<not> is_frame_return x \<and> \<not> is_miss x) pre)
      \<longleftrightarrow> (\<exists>pre post. ds = pre @ d # post \<and> is_frame_return d
        \<and> list_all (\<lambda>x. \<not> is_frame_return x \<and> \<not> is_miss x) pre)" (is "?l \<longleftrightarrow> ?r")
    proof
      show ?r if ?l using that False by (auto simp: Cons_eq_append_conv)
      show ?l if ?r
      proof -
        from that obtain pre post where "ds = pre @ d # post" "is_frame_return d"
          "list_all (\<lambda>x. \<not> is_frame_return x \<and> \<not> is_miss x) pre" by blast
        with False show ?l by (intro exI [of _ "x # pre"] exI [of _ post]) simp
      qed
    qed
    ultimately show ?thesis using Cons by simp
  qed
qed simp

lemma length_gap_key [simp]: "length (gap_key j) = 16"
  by (simp add: gap_key_def)

lemma gap_key_inject: "gap_key j = gap_key j' \<longleftrightarrow> j_hashKey j = j_hashKey j' \<and> j_seq j = j_seq j'"
  by (simp add: gap_key_def)

lemma port_bytes:
  assumes "0 \<le> p" "p < 65536" "0 \<le> q" "q < 65536"
    and "(word_of_int (p div 256) :: byte) = word_of_int (q div 256)" "(word_of_int p :: byte) = word_of_int q"
  shows "p = q"
proof -
  have "p div 256 mod 256 = q div 256 mod 256" "p mod 256 = q mod 256"
    using assms(5,6) by (simp_all add: word_of_int_eq_iff take_bit_eq_mod)
  moreover have "p div 256 < 256" "q div 256 < 256" "0 \<le> p div 256" "0 \<le> q div 256"
    using assms(1-4) by (auto simp: div_less_iff_less_mult)
  ultimately show ?thesis by (metis mod_pos_pos_trivial div_mult_mod_eq)
qed

section \<open>Lemmas: the wire\<close>

text \<open>The proxied NACK of iteration \<open>i\<close>.\<close>

definition nack_to :: "('b, 's) ProxyConfig \<Rightarrow> (nat \<Rightarrow> bool \<times> fetch_env) \<Rightarrow> job \<Rightarrow> nat \<Rightarrow> sent" where
  "nack_to cfg env j i = \<lparr>via = ProxySock (fetch_laddr cfg),
     dst = projr (fe_resolve (snd (env i)) (Upstreams cfg ! i)), payload = proxied_nack j\<rparr>"

lemma fetch_sends:
  assumes "fetch cfg (snd (env i)) (Upstreams cfg ! i) j s = (r, s1)"
  shows "stg s1 = stg s \<and> rcd s1 = rcd s \<and> io.more s1 = io.more s
    \<and> (sends s s1 [nack_to cfg env j i] \<and> r = read_loop (fe_replies (snd (env i))) \<or> sends s s1 [] \<and> r = None)"
proof (cases "fe_resolve (snd (env i)) (Upstreams cfg ! i)")
  case (Inl e)
  with assms show ?thesis by (auto simp: fetch_def)
next
  case (Inr a)
  show ?thesis
  proof (cases "fe_listen (snd (env i)) (fetch_laddr cfg)")
    case (Some e)
    with assms Inr show ?thesis by (auto simp: fetch_def)
  next
    case None
    obtain e t where w: "io_write (ProxySock (fetch_laddr cfg)) (proxied_nack j) a s = (e, t)" by force
    with assms Inr None io_write_wire [OF w] sends_write [OF w] show ?thesis
      by (cases e) (auto simp: fetch_def nack_to_def)
  qed
qed

lemma claim_gap_frame:
  "claim_gap cfg j s = (b, s1) \<Longrightarrow> sends s s1 [] \<and> io.more s1 = io.more s \<and> (rcd s1 = None \<longleftrightarrow> rcd s = None)
     \<and> ctr m s1 = ctr m s + (if m = proxyInflightDedup \<and> \<not> b \<and> rcd s \<noteq> None then 1 else 0)"
  by (auto simp: claim_gap_def Let_def sends_def recorder_defs ctr_def split: option.splits prod.splits if_splits)

text \<open>Where a recovered frame may go: multicast copies, and at most one unicast copy, to the requester.\<close>

definition delivery :: "('b, 's) ProxyConfig \<Rightarrow> job \<Rightarrow> bytes \<Rightarrow> sent list \<Rightarrow> bool" where
  "delivery cfg j raw ds \<longleftrightarrow> (\<exists>ms us. ds = ms @ us \<and> list_all (is_mc raw) ms \<and> (pc_Multicast cfg \<or> ms = [])
     \<and> (us = [] \<or> pc_Unicast cfg \<and> (\<exists>a. j_requester j = Some a \<and> us = [uc_copy raw a])))"

text \<open>
  What the loop has done for the outcome \<open>oc\<close> when it has asked the upstreams \<open>ks\<close> and then sent \<open>ds\<close>.
\<close>

definition attempt_ok :: "('b, 's) ProxyConfig \<Rightarrow> (nat \<Rightarrow> bool \<times> fetch_env) \<Rightarrow> job \<Rightarrow> nat list \<Rightarrow> sent list \<Rightarrow> outcome \<Rightarrow> bool" where
  "attempt_ok cfg env j ks ds oc \<longleftrightarrow>
    (case oc of
       Recovered i raw \<Rightarrow> ks \<noteq> [] \<and> last ks = i \<and> read_loop (fe_replies (snd (env i))) = Some raw \<and> delivery cfg j raw ds
     | InFlight \<Rightarrow> ks = [] \<and> ds = []
     | _ \<Rightarrow> ds = [])"

text \<open>The counter that stands for an outcome.\<close>

fun oc_metric :: "outcome \<Rightarrow> metric option" where
  "oc_metric InFlight = Some proxyInflightDedup"
| "oc_metric Cancelled = None"
| "oc_metric (Recovered i raw) = Some proxyRecovered"
| "oc_metric Exhausted = Some (proxyFailed ''exhausted'')"

lemma try_upstreams_total:
  "list_all (\<lambda>i. i < length (Upstreams cfg)) is \<Longrightarrow> try_upstreams cfg env j is s \<noteq> None"
proof (induction "is" arbitrary: s)
  case (Cons i "is")
  then show ?case by (cases "fetch cfg (snd (env i)) (Upstreams cfg ! i) j s") (auto split: option.splits)
qed simp

context retransmit_contract
begin

lemma deliver_mc_sends:
  assumes "pc_Retrans cfg = RT"
  shows "\<exists>ms. sends s (deliver_mc cfg raw s) ms \<and> list_all (is_mc raw) ms \<and> (pc_Multicast cfg \<or> ms = [])"
    and "io.more (deliver_mc cfg raw s) = io.more s" and "rcd (deliver_mc cfg raw s) = None \<longleftrightarrow> rcd s = None"
    and "m \<notin> {retransmits, retransmitDedup, cacheErrors} \<Longrightarrow> ctr m (deliver_mc cfg raw s) = ctr m s"
proof -
  obtain e t where r: "ri_Retransmit RT raw (go_slice 8 40 raw) s = (e, t)" by force
  note laws = mc_sends [OF r] mc_counts [OF r]
  show "\<exists>ms. sends s (deliver_mc cfg raw s) ms \<and> list_all (is_mc raw) ms \<and> (pc_Multicast cfg \<or> ms = [])"
    and "io.more (deliver_mc cfg raw s) = io.more s" and "rcd (deliver_mc cfg raw s) = None \<longleftrightarrow> rcd s = None"
    and "m \<notin> {retransmits, retransmitDedup, cacheErrors} \<Longrightarrow> ctr m (deliver_mc cfg raw s) = ctr m s"
    using laws by (auto simp: deliver_mc_def assms r recorder_defs split: option.splits)
qed

lemma deliver_uc_sends:
  assumes "pc_Retrans cfg = RT"
  shows "sends s (deliver_uc cfg j raw s) []
      \<or> pc_Unicast cfg \<and> (\<exists>a. j_requester j = Some a \<and> sends s (deliver_uc cfg j raw s) [uc_copy raw a])"
    and "io.more (deliver_uc cfg j raw s) = io.more s" and "rcd (deliver_uc cfg j raw s) = None \<longleftrightarrow> rcd s = None"
    and "m \<noteq> unicastRetransmits \<Longrightarrow> ctr m (deliver_uc cfg j raw s) = ctr m s"
proof -
  obtain e t where r: "ri_RetransmitUnicast RT raw (j_requester j) s = (e, t)" by force
  note laws = uc_sends [OF r]
  show "sends s (deliver_uc cfg j raw s) []
      \<or> pc_Unicast cfg \<and> (\<exists>a. j_requester j = Some a \<and> sends s (deliver_uc cfg j raw s) [uc_copy raw a])"
    and "io.more (deliver_uc cfg j raw s) = io.more s" and "rcd (deliver_uc cfg j raw s) = None \<longleftrightarrow> rcd s = None"
    and "m \<noteq> unicastRetransmits \<Longrightarrow> ctr m (deliver_uc cfg j raw s) = ctr m s"
    using laws by (auto simp: deliver_uc_def assms r recorder_defs ctr_def split: option.splits)
qed

lemma deliver_sends:
  assumes "pc_Retrans cfg = RT"
  shows "\<exists>ds. sends s (deliver cfg j raw s) ds \<and> delivery cfg j raw ds"
    and "io.more (deliver cfg j raw s) = io.more s" and "rcd (deliver cfg j raw s) = None \<longleftrightarrow> rcd s = None"
    and "m \<notin> {retransmits, unicastRetransmits, retransmitDedup, cacheErrors} \<Longrightarrow>
      ctr m (deliver cfg j raw s) = ctr m s + (if m = proxyRecovered \<and> rcd s \<noteq> None then 1 else 0)"
proof -
  define s1 where "s1 = s\<lparr>stg := snd (proxy_store cfg raw (stg s))\<rparr>"
  have eq: "deliver cfg j raw s = io_rec rec_ProxyRecovered (deliver_uc cfg j raw (deliver_mc cfg raw s1))"
    by (simp add: deliver_def s1_def split: prod.splits)
  have s1: "sends s s1 []" "io.more s1 = io.more s" "rcd s1 = rcd s" "ctr m s1 = ctr m s"
    by (simp_all add: s1_def sends_def ctr_def)
  note M = deliver_mc_sends [OF assms] and U = deliver_uc_sends [OF assms]
  from M(1) [of s1 raw] obtain ms where
    ms: "sends s1 (deliver_mc cfg raw s1) ms" "list_all (is_mc raw) ms" "pc_Multicast cfg \<or> ms = []" by blast
  from U(1) [of "deliver_mc cfg raw s1" j raw] obtain us where
    us: "sends (deliver_mc cfg raw s1) (deliver_uc cfg j raw (deliver_mc cfg raw s1)) us"
      "us = [] \<or> pc_Unicast cfg \<and> (\<exists>a. j_requester j = Some a \<and> us = [uc_copy raw a])" by blast
  have "sends s (deliver cfg j raw s) (ms @ us)"
    using sends_trans [OF s1(1) sends_trans [OF ms(1) us(1)]] by (simp add: eq)
  with ms us(2) show "\<exists>ds. sends s (deliver cfg j raw s) ds \<and> delivery cfg j raw ds"
    by (auto simp: delivery_def)
  show "io.more (deliver cfg j raw s) = io.more s" and "rcd (deliver cfg j raw s) = None \<longleftrightarrow> rcd s = None"
    by (simp_all add: eq M U s1)
  show "ctr m (deliver cfg j raw s) = ctr m s + (if m = proxyRecovered \<and> rcd s \<noteq> None then 1 else 0)"
    if "m \<notin> {retransmits, unicastRetransmits, retransmitDedup, cacheErrors}"
    using that M(3,4) U(3,4) s1 by (auto simp: eq recorder_defs)
qed

lemma try_upstreams_sends:
  assumes "pc_Retrans cfg = RT"
  shows "try_upstreams cfg env j is s = Some (oc, s') \<Longrightarrow>
    (\<exists>ks ds. sends s s' (map (nack_to cfg env j) ks @ ds) \<and> subseq ks is \<and> attempt_ok cfg env j ks ds oc)
    \<and> io.more s' = io.more s \<and> oc \<noteq> InFlight"
proof (induction "is" arbitrary: s)
  case Nil
  then show ?case by (auto simp: attempt_ok_def intro: exI [of _ "[]"])
next
  case (Cons i "is")
  show ?case
  proof (cases "fst (env i)")
    case True
    with Cons.prems have "oc = Cancelled" "s' = s" by auto
    then show ?thesis by (auto intro!: exI [of _ "[]"] simp: attempt_ok_def)
  next
    case False
    with Cons.prems have lt: "i < length (Upstreams cfg)" by (simp split: if_splits)
    obtain r s1 where f: "fetch cfg (snd (env i)) (Upstreams cfg ! i) j s = (r, s1)" by force
    note F = fetch_sends [where env = env and i = i, OF f]
    show ?thesis
    proof (cases r)
      case None
      with False Cons.prems f lt have "try_upstreams cfg env j is s1 = Some (oc, s')" by simp
      from Cons.IH [OF this] obtain ks ds where
        k: "sends s1 s' (map (nack_to cfg env j) ks @ ds)" "subseq ks is" "attempt_ok cfg env j ks ds oc"
        and m: "io.more s' = io.more s1" "oc \<noteq> InFlight" by blast
      have "sends s s' (map (nack_to cfg env j) ks @ ds) \<or> sends s s' (map (nack_to cfg env j) (i # ks) @ ds)"
        using F sends_trans [OF _ k(1), of s] by fastforce
      moreover have "subseq ks (i # is)" "subseq (i # ks) (i # is)" "attempt_ok cfg env j (i # ks) ds oc"
        using k m(2) by (auto simp: attempt_ok_def split: outcome.splits)
      ultimately show ?thesis using k(3) m F by metis
    next
      case (Some raw)
      with False Cons.prems f lt have o: "oc = Recovered i raw" "s' = deliver cfg j raw s1" by auto
      from Some F have n: "sends s s1 (map (nack_to cfg env j) [i])" "read_loop (fe_replies (snd (env i))) = Some raw" by auto
      from deliver_sends(1) [OF assms, of s1 j raw] obtain ds where
        d: "sends s1 s' ds" "delivery cfg j raw ds" using o by blast
      have "attempt_ok cfg env j [i] ds oc" using o n d by (simp add: attempt_ok_def)
      moreover have "io.more s' = io.more s" using deliver_sends(2) [OF assms] o F by simp
      ultimately show ?thesis
        using sends_trans [OF n(1) d(1)] o by (intro conjI exI [of _ "[i]"] exI [of _ ds]) simp_all
    qed
  qed
qed

lemma try_upstreams_ctr:
  assumes "pc_Retrans cfg = RT" and "m \<notin> {retransmits, unicastRetransmits, retransmitDedup, cacheErrors}"
  shows "try_upstreams cfg env j is s = Some (oc, s') \<Longrightarrow>
    ctr m s' = ctr m s + (if oc_metric oc = Some m \<and> rcd s \<noteq> None then 1 else 0)"
proof (induction "is" arbitrary: s)
  case Nil
  then show ?case by (auto simp: recorder_defs)
next
  case (Cons i "is")
  obtain r s1 where f: "fetch cfg (snd (env i)) (Upstreams cfg ! i) j s = (r, s1)" by force
  have "rcd s1 = rcd s" "ctr m s1 = ctr m s"
    using fetch_sends [where env = env and i = i, OF f] by (simp_all add: ctr_def)
  with Cons f deliver_sends(4) [OF assms(1), of m j _ s1] assms(2) show ?case
    by (cases r) (auto split: if_splits)
qed

end

section \<open>Properties\<close>

text \<open>
  C19: What one recovery puts on the wire.  With the configuration that \<^verbatim>\<open>New\<close> completes, \<^verbatim>\<open>recover\<close> always
  runs to one of its return statements.  It sends proxied NACKs to upstreams in configuration order, each
  upstream at most once and at most \<^verbatim>\<open>MaxEndpoints\<close> of them, from the configured source address; after them
  it sends something only if the last upstream asked returned a frame, and then only copies of that frame: multicast copies
  when multicast is on, and one unicast copy, to the requester, when unicast is on.  A recovery that
  lost the in-flight claim sends nothing at all.
\<close>

theorem proxy_recover_wire:
  fixes c0 :: "('b, ('b, 'z) io_scheme) ProxyConfig"
  shows "let cfg = proxy_New (c0\<lparr>pc_Retrans := retransmitter_iface F ga r\<rparr>) in
    \<exists>oc s' ks ds. proxy_recover cfg env j s = Some (oc, s')
      \<and> sends s s' (map (nack_to cfg env j) ks @ ds)
      \<and> subseq ks [0..<nat (MaxEndpoints cfg)] \<and> nat (MaxEndpoints cfg) \<le> length (Upstreams cfg)
      \<and> attempt_ok cfg env j ks ds oc \<and> io.more s' = io.more s"
proof -
  define cfg where "cfg = proxy_New (c0\<lparr>pc_Retrans := retransmitter_iface F ga r\<rparr>)"
  have ok: "proxy_cfg_ok cfg" by (simp add: cfg_def proxy_New_ok)
  then have n: "nat (MaxEndpoints cfg) \<le> length (Upstreams cfg)" by (simp add: proxy_cfg_ok_def nat_le_iff)
  have rt: "pc_Retrans cfg = retransmitter_iface F ga r" by (simp add: cfg_def proxy_New_def Let_def)
  obtain b s1 where c: "claim_gap cfg j (io_rec rec_ProxyRequest s) = (b, s1)" by force
  have g: "sends s s1 []" "io.more s1 = io.more s" using claim_gap_frame [OF c] by simp_all
  show ?thesis
  proof (cases b)
    case False
    with c g n show ?thesis
      unfolding Let_def cfg_def [symmetric]
      by (intro exI [of _ InFlight] exI [of _ s1] exI [of _ "[]"]) (simp add: proxy_recover_def attempt_ok_def)
  next
    case True
    have "list_all (\<lambda>i. i < length (Upstreams cfg)) [0..<nat (MaxEndpoints cfg)]"
      using n by (auto simp: list_all_iff)
    then obtain oc s' where t: "try_upstreams cfg env j [0..<nat (MaxEndpoints cfg)] s1 = Some (oc, s')"
      using try_upstreams_total [of cfg _ env j s1] by fastforce
    from rt.try_upstreams_sends [OF rt t] obtain ks ds where
      k: "sends s1 s' (map (nack_to cfg env j) ks @ ds)" "subseq ks [0..<nat (MaxEndpoints cfg)]"
        "attempt_ok cfg env j ks ds oc" and m: "io.more s' = io.more s1" "oc \<noteq> InFlight" by blast
    have "sends s s' (map (nack_to cfg env j) ks @ ds)" using sends_trans [OF g(1) k(1)] by simp
    with True c t k m g n show ?thesis
      unfolding Let_def cfg_def [symmetric]
      by (intro exI [of _ oc] exI [of _ s'] exI [of _ ks] exI [of _ ds]) (simp add: proxy_recover_def)
  qed
qed

text \<open>
  C30: Every recovery is counted once as a request and exactly once under its outcome: in-flight
  duplicate, recovered, or failed (a recovery cut short by shutdown counts under none), whatever the retransmission of the frame does.
\<close>

theorem proxy_recover_counts:
  fixes cfg :: "('b, ('b, 'z) io_scheme) ProxyConfig"
  assumes "pc_Retrans cfg = retransmitter_iface F ga r" and "rcd s \<noteq> None"
    and "proxy_recover cfg env j s = Some (oc, s')"
    and "m \<in> {proxyRequests, proxyInflightDedup, proxyRecovered, proxyFailed why}"
  shows "ctr m s' = ctr m s + (if m = proxyRequests \<or> oc_metric oc = Some m then 1 else 0)"
proof -
  obtain b s1 where c: "claim_gap cfg j (io_rec rec_ProxyRequest s) = (b, s1)" by force
  have g: "ctr m s1 = ctr m s + (if m = proxyRequests then 1 else 0) + (if m = proxyInflightDedup \<and> \<not> b then 1 else 0)"
    "rcd s1 \<noteq> None"
    using claim_gap_frame [OF c, of m] assms(2) by (auto simp: recorder_defs)
  have req: "oc_metric oc \<noteq> Some proxyRequests" by (cases oc) simp_all
  show ?thesis
  proof (cases b)
    case False
    with assms(3) c g show ?thesis by (auto simp: proxy_recover_def)
  next
    case True
    with assms(3) c have "try_upstreams cfg env j [0..<nat (MaxEndpoints cfg)] s1 = Some (oc, s')"
      by (simp add: proxy_recover_def)
    from rt.try_upstreams_ctr [OF assms(1) _ this, of m] assms(4) g True req show ?thesis by auto
  qed
qed

text \<open>
  The in-flight claim is exact.  Two jobs contend for the same claim if and only if they ask for the
  same (HashKey, SeqNum) and, when recovered frames go back by unicast, come from the same requester
  address and port.  So no unicast requester is starved by another one's claim, and in multicast mode one claim
  covers all requesters.
\<close>

lemma claim_key_exact:
  assumes "\<forall>a. j_requester j = Some a \<longrightarrow> 0 \<le> uPort a \<and> uPort a < 65536"
    and "\<forall>a. j_requester j' = Some a \<longrightarrow> 0 \<le> uPort a \<and> uPort a < 65536"
  shows "claim_key cfg j = claim_key cfg j' \<longleftrightarrow>
    j_hashKey j = j_hashKey j' \<and> j_seq j = j_seq j' \<and> (pc_Unicast cfg \<longrightarrow> j_requester j = j_requester j')"
proof (cases "pc_Unicast cfg")
  case False
  then show ?thesis by (simp add: claim_key_def gap_key_inject split: option.splits)
next
  case True
  have pq: "a = b" if "j_requester j = Some a" "j_requester j' = Some b" "uIP a = uIP b"
    "(word_of_int (uPort a div 256) :: byte) = word_of_int (uPort b div 256)" "(word_of_int (uPort a) :: byte) = word_of_int (uPort b)"
    for a b
    using that assms port_bytes [of "uPort a" "uPort b"] by (cases a, cases b) auto
  show ?thesis
  proof (cases "j_requester j")
    case None
    then show ?thesis
      by (cases "j_requester j'") (auto simp: True claim_key_def gap_key_inject dest!: arg_cong [where f = length])
  next
    case (Some a)
    show ?thesis
    proof (cases "j_requester j'")
      case None
      with Some show ?thesis by (auto simp: True claim_key_def dest!: arg_cong [where f = length])
    next
      case (Some b)
      with \<open>j_requester j = Some a\<close> pq show ?thesis
        by (auto simp: True claim_key_def gap_key_inject)
    qed
  qed
qed

text \<open>
  Of the datagrams that arrive, a fetch returns the first one that is a frame (header size reached, magic
  matches, neither ACK nor MISS), and only if no MISS came before it; ACKs and junk in front of it are skipped.
\<close>

lemma fetch_first_frame:
  assumes "fetch cfg fe endpoint j s = (Some raw, s')"
  shows "\<exists>pre post. fe_replies fe = pre @ raw # post \<and> is_frame_return raw
    \<and> list_all (\<lambda>x. \<not> is_frame_return x \<and> \<not> is_miss x) pre"
proof -
  from assms have "read_loop (fe_replies fe) = Some raw"
    by (auto simp: fetch_def Let_def split: sum.splits option.splits prod.splits)
  then show ?thesis by (rule read_loop_Some [THEN iffD1])
qed

text \<open>
  The queue is bounded and first-in first-out: a job is accepted exactly while the queue holds fewer than
  \<^verbatim>\<open>QueueDepth\<close> jobs, an accepted job goes to the end, a rejected one leaves the queue alone and is
  counted, and the bound is kept.
\<close>

lemma enqueue_bounded:
  assumes "int (length (pq s)) \<le> QueueDepth cfg" and "Enqueue cfg h n st req s = (ok, s')"
  shows "int (length (pq s')) \<le> QueueDepth cfg \<and> (ok \<longleftrightarrow> int (length (pq s)) < QueueDepth cfg)
    \<and> pq s' = pq s @ (if ok then [\<lparr>j_hashKey = h, j_seq = n, j_subtree = st, j_requester = req\<rparr>] else [])
    \<and> stg s' = stg s \<and> nw s' = nw s
    \<and> ctr proxyQueueDropped s' = ctr proxyQueueDropped s + (if ok \<or> rcd s = None then 0 else 1)"
  using assms by (auto simp: Enqueue_def recorder_defs io_rec_def ctr_def split: if_splits option.splits)

section \<open>Concrete instances\<close>

definition ex_job :: job where
  "ex_job = \<lparr>j_hashKey = 1, j_seq = 2, j_subtree = [], j_requester = Some \<lparr>uIP = [10, 0, 0, 1], uPort = 9300\<rparr>\<rparr>"

definition ex_ttls :: TTLConfig where
  "ex_ttls = \<lparr>ttl_Tx = 60, ttl_Block = 61, ttl_Subtree = 62, ttl_Anchor = 63, ttl_BEEF = 64\<rparr>"

definition ex_cache :: "(bytes, bytes) amap Store" where
  "ex_cache = NewStore (map_backend True) (ascii ''bre:frame:'') 0"

definition ex_pcfg :: "((bytes, bytes) amap, (bytes, bytes) amap io) ProxyConfig" where
  "ex_pcfg = proxy_New \<lparr>Upstreams = [''[fd00::1]:9300'', ''[fd00::2]:9300''], SourceIP = None, pc_Timeout = 0,
     MaxEndpoints = 0, pc_DedupWindow = 0, pc_Workers = 0, QueueDepth = 0, pc_Dedup = None, pc_Cache = ex_cache,
     pc_Retrans = retransmitter_iface ref_frame_pkg ref_group_addr ex_rt, pc_TTLs = ex_ttls,
     pc_Multicast = True, pc_Unicast = True\<rparr>"

text \<open>The first upstream answers MISS, the second one ACK and then the frame.\<close>

definition ex_env :: "nat \<Rightarrow> bool \<times> fetch_env" where
  "ex_env i = (False, \<lparr>fe_resolve = (\<lambda>_. Inr \<lparr>uIP = [10, 0, 0, 2], uPort = 9300\<rparr>), fe_listen = (\<lambda>_. None),
     fe_replies = (if i = 0 then [[0, 0, 0, 0, 0, 0, msgTypeMISS, 0] @ replicate 8 0]
                   else [[0, 0, 0, 0, 0, 0, msgTypeACK, 0] @ replicate 8 0, ex_frame 1 2 2])\<rparr>)"

theorem proxy_recover_counts_witness:
  "ctr proxyRecovered (snd (the (proxy_recover ex_pcfg ex_env ex_job ex_io))) = 1"
proof -
  let ?r = "proxy_recover ex_pcfg ex_env ex_job ex_io"
  have "?r \<noteq> None" "oc_metric (fst (the ?r)) = Some proxyRecovered" by code_simp+
  then have "?r = Some (fst (the ?r), snd (the ?r))" by auto
  from proxy_recover_counts [OF _ _ this, of ref_frame_pkg ref_group_addr ex_rt proxyRecovered "[]"]
    \<open>oc_metric (fst (the ?r)) = Some proxyRecovered\<close>
  show ?thesis by (simp add: ex_pcfg_def proxy_New_def Let_def ex_io_def new_Recorder_def ctr_def)
qed

end
