(* ===== verification/Nack_Server.thy ===== *)
theory Nack_Server
  imports Nack_Proxy Rate_Limit
begin

text \<open>
  The NACK server of \<^verbatim>\<open>src/server/server.go\<close>: validation of the 64-byte request, the four rate-limit
  tiers, the cache lookup, retransmission and the 16-byte responses.  The locale \<open>proxy_enqueuer\<close> is the Go interface
  \<^verbatim>\<open>ProxyEnqueuer\<close>, and \<open>nack_deps\<close> puts it together with the retransmitter's contract: the server's
  lemmas are proved there once, and hold of the real proxy client and retransmitter by interpretation.
\<close>

section \<open>Constants\<close>

definition NACKSize :: nat where "NACKSize = 64"
definition ResponseSize :: nat where "ResponseSize = 16"
definition msgTypeThrottled :: byte where "msgTypeThrottled = 0x13"
definition throttleBucketSequence :: byte where "throttleBucketSequence = 2"
definition throttleBucketChain :: byte where "throttleBucketChain = 3"
definition throttleBucketGroup :: byte where "throttleBucketGroup = 4"
definition ackFlagMulticastSent :: byte where "ackFlagMulticastSent = 0x01"
definition ackFlagUnicastSent :: byte where "ackFlagUnicastSent = 0x02"

lemmas server_consts = NACKSize_def ResponseSize_def msgTypeThrottled_def throttleBucketSequence_def
  throttleBucketChain_def throttleBucketGroup_def ackFlagMulticastSent_def ackFlagUnicastSent_def

section \<open>The server\<close>

type_synonym 's enqueuer = "u64 \<Rightarrow> u64 \<Rightarrow> bytes \<Rightarrow> UDPAddr option \<Rightarrow> 's \<Rightarrow> bool \<times> 's"

record ('b, 's) Server =
  sv_port :: int
  sv_bindAddr :: string
  sv_cache :: "'b Store"
  sv_retransmit :: "'s RetransmitterI"
  sv_workers :: int
  sv_debug :: bool
  suppressACK :: bool
  suppressMISS :: bool
  throttleResp :: bool
  sv_shardEngine :: "engine option"
  sv_beefEngine :: "plane_engine option"
  retransmitMC :: bool
  retransmitUC :: bool
  sv_proxy :: "'s enqueuer option"

definition server_New :: "int \<Rightarrow> 'b Store \<Rightarrow> 's RetransmitterI \<Rightarrow> int \<Rightarrow> bool \<Rightarrow> ('b, 's) Server" where
  "server_New port cache rt workers debug =
    \<lparr>sv_port = port, sv_bindAddr = [], sv_cache = cache, sv_retransmit = rt, sv_workers = workers, sv_debug = debug,
     suppressACK = False, suppressMISS = False, throttleResp = False, sv_shardEngine = None, sv_beefEngine = None,
     retransmitMC = True, retransmitUC = False, sv_proxy = None\<rparr>"

definition SetRetransmitModes :: "bool \<Rightarrow> bool \<Rightarrow> ('b, 's) Server \<Rightarrow> ('b, 's) Server" where
  "SetRetransmitModes mc uc sv = sv\<lparr>retransmitMC := mc, retransmitUC := uc\<rparr>"

definition SetProxy :: "'s enqueuer option \<Rightarrow> ('b, 's) Server \<Rightarrow> ('b, 's) Server" where
  "SetProxy p sv = sv\<lparr>sv_proxy := p\<rparr>"

definition SetSuppressACK :: "bool \<Rightarrow> ('b, 's) Server \<Rightarrow> ('b, 's) Server" where "SetSuppressACK v sv = sv\<lparr>suppressACK := v\<rparr>"
definition SetSuppressMISS :: "bool \<Rightarrow> ('b, 's) Server \<Rightarrow> ('b, 's) Server" where "SetSuppressMISS v sv = sv\<lparr>suppressMISS := v\<rparr>"
definition SetThrottleResponse :: "bool \<Rightarrow> ('b, 's) Server \<Rightarrow> ('b, 's) Server" where "SetThrottleResponse v sv = sv\<lparr>throttleResp := v\<rparr>"
definition SetBindAddr :: "string \<Rightarrow> ('b, 's) Server \<Rightarrow> ('b, 's) Server" where "SetBindAddr a sv = sv\<lparr>sv_bindAddr := a\<rparr>"
definition SetBEEFEngine :: "plane_engine option \<Rightarrow> ('b, 's) Server \<Rightarrow> ('b, 's) Server" where "SetBEEFEngine pe sv = sv\<lparr>sv_beefEngine := pe\<rparr>"
definition SetShardEngine :: "engine option \<Rightarrow> ('b, 's) Server \<Rightarrow> ('b, 's) Server" where "SetShardEngine e sv = sv\<lparr>sv_shardEngine := e\<rparr>"

text \<open>The mutable state: storage, network, recorder and proxy queue, and the limiter the server shares.\<close>

record ('b, 'l) world = "'b pworld" +
  lim :: "'l Limiter"

section \<open>Responses\<close>

definition response_bytes :: "byte \<Rightarrow> byte \<Rightarrow> u64 \<Rightarrow> bytes" where
  "response_bytes msgType flags seqNum =
    (let b0 = replicate ResponseSize 0;
         b1 = put_at 0 (PutUint32 MagicBSV) b0;
         b2 = put_at 4 (PutUint16 ProtoVer) b1;
         b3 = put_at 6 [msgType] b2;
         b4 = put_at 7 [flags] b3
     in put_at 8 (PutUint64 seqNum) b4)"

text \<open>One reply datagram, counted under \<open>label\<close>.\<close>

definition reply :: "bytes \<Rightarrow> string \<Rightarrow> UDPAddr \<Rightarrow> ('b, 'z) io_scheme \<Rightarrow> ('b, 'z) io_scheme" where
  "reply pkt label src s =
    (case io_write NackSock pkt src s of
       (Some _, t) \<Rightarrow> io_rec (rec_ResponseSendError label) t
     | (None, t) \<Rightarrow> io_rec (rec_ResponseSent label) t)"

definition sendThrottled :: "UDPAddr \<Rightarrow> byte \<Rightarrow> u64 \<Rightarrow> ('b, 'z) io_scheme \<Rightarrow> ('b, 'z) io_scheme" where
  "sendThrottled src bucket seqNum s = reply (response_bytes msgTypeThrottled (bucket AND 0x0F) seqNum) ''throttled'' src s"

definition sendResponse :: "UDPAddr \<Rightarrow> byte \<Rightarrow> byte \<Rightarrow> u64 \<Rightarrow> ('b, 'z) io_scheme \<Rightarrow> ('b, 'z) io_scheme" where
  "sendResponse src msgType flags seqNum s =
    reply (response_bytes msgType flags seqNum) (if msgType = msgTypeMISS then ''miss'' else ''ack'') src s"

section \<open>Processing one request\<close>

definition validateNACK :: "bytes \<Rightarrow> go_error option" where
  "validateNACK d =
    (if length d < NACKSize then Some (Errorf ''invalid NACK size'')
     else if Uint32 (go_slice 0 4 d) \<noteq> MagicBSV then Some (Errorf ''invalid magic'')
     else if d ! 6 \<noteq> msgTypeNACK then Some (Errorf ''invalid message type'')
     else None)"

text \<open>The four clock readings a request may take, and the return statement it reaches.\<close>

record clock =
  t_IP :: int
  t_Seq :: int
  t_Chain :: int
  t_Group :: int

datatype verdict = Malformed | RangeNACK | Limited Level | CacheFailed | Missed | SendFailed | Served

text \<open>Group of tier 4: from the TxID, the bundle header, or the TopicID of a BEEF frame.\<close>

definition rl_group :: "frame_pkg \<Rightarrow> plane_engine option \<Rightarrow> engine \<Rightarrow> bytes \<Rightarrow> bytes \<Rightarrow> u32" where
  "rl_group F beef e raw txID =
    (let g0 = GroupIndex e txID;
         g1 = (if IsBundle F raw \<and> 58 \<le> length raw then ucast (Uint16 (go_slice 56 58 raw)) else g0)
     in case beef of
          Some pe \<Rightarrow> if IsBEEFFrame F raw \<and> 88 \<le> length raw then pe (go_slice 56 88 raw) else g1
        | None \<Rightarrow> g1)"

text \<open>Multicast step of a hit: the ACK flags so far, or \<open>None\<close> when the handler returns on a send error.\<close>

definition serve_mc :: "('b, ('b, 'z) io_scheme) Server \<Rightarrow> bytes \<Rightarrow> bytes \<Rightarrow> ('b, 'z) io_scheme \<Rightarrow> byte option \<times> ('b, 'z) io_scheme" where
  "serve_mc sv raw txID s =
    (if retransmitMC sv then
       (case ri_Retransmit (sv_retransmit sv) raw txID s of
          (None, t) \<Rightarrow> (Some ackFlagMulticastSent, io_rec rec_Retransmit t)
        | (Some ErrDedupSuppressed, t) \<Rightarrow> (Some 0, t)
        | (Some _, t) \<Rightarrow> (None, t))
     else (Some 0, s))"

definition serve_uc :: "('b, ('b, 'z) io_scheme) Server \<Rightarrow> bool \<Rightarrow> bytes \<Rightarrow> UDPAddr option \<Rightarrow> byte
    \<Rightarrow> ('b, 'z) io_scheme \<Rightarrow> byte \<times> ('b, 'z) io_scheme" where
  "serve_uc sv proxied raw src flags s =
    (if (retransmitUC sv \<or> proxied) \<and> src \<noteq> None then
       (case ri_RetransmitUnicast (sv_retransmit sv) raw src s of
          (None, t) \<Rightarrow> (flags OR ackFlagUnicastSent, io_rec rec_UnicastRetransmit t)
        | (Some _, t) \<Rightarrow> (flags, t))
     else (flags, s))"

definition serve_hit :: "('b, ('b, 'z) io_scheme) Server \<Rightarrow> bool \<Rightarrow> bytes \<Rightarrow> bytes \<Rightarrow> UDPAddr option \<Rightarrow> u64
    \<Rightarrow> ('b, 'z) io_scheme \<Rightarrow> verdict \<times> ('b, 'z) io_scheme" where
  "serve_hit sv proxied raw txID src seqNum s =
    (case serve_mc sv raw txID s of
       (None, s1) \<Rightarrow> (SendFailed, s1)
     | (Some f1, s1) \<Rightarrow>
        (let (ackFlags, s2) = serve_uc sv proxied raw src f1 s1;
             attempted = (retransmitMC sv \<or> ((retransmitUC sv \<or> proxied) \<and> src \<noteq> None))
         in case src of
              Some a \<Rightarrow> (Served, if \<not> suppressACK sv \<and> (ackFlags \<noteq> 0 \<or> \<not> attempted)
                                 then sendResponse a msgTypeACK ackFlags seqNum s2 else s2)
            | None \<Rightarrow> (Served, s2)))"

text \<open>The hint of each tier; the flood tier has none.\<close>

fun level_bucket :: "Level \<Rightarrow> byte option" where
  "level_bucket LevelIP = None"
| "level_bucket LevelSequence = Some throttleBucketSequence"
| "level_bucket LevelChain = Some throttleBucketChain"
| "level_bucket LevelGroup = Some throttleBucketGroup"

text \<open>A rate-limit rejection: counted, and answered with a hint when \<open>bucket\<close> is given and hints are on.\<close>

definition limited :: "('b, 's) Server \<Rightarrow> Level \<Rightarrow> byte option \<Rightarrow> UDPAddr option \<Rightarrow> u64
    \<Rightarrow> ('b, 'z) io_scheme \<Rightarrow> verdict \<times> ('b, 'z) io_scheme" where
  "limited sv level bucket src seqNum s =
    (let s1 = io_rec (rec_RateLimitDrop (level_string level)) s
     in (Limited level,
         case (bucket, src) of
           (Some b, Some a) \<Rightarrow> if throttleResp sv then sendThrottled a b seqNum s1 else s1
         | _ \<Rightarrow> s1))"

definition on_miss :: "('b, ('b, 'z) pworld_scheme) Server \<Rightarrow> bool \<Rightarrow> u64 \<Rightarrow> u64 \<Rightarrow> bytes \<Rightarrow> UDPAddr option
    \<Rightarrow> ('b, 'z) pworld_scheme \<Rightarrow> verdict \<times> ('b, 'z) pworld_scheme" where
  "on_miss sv proxied hashKey startSeq subtreeID src s =
    (let s1 = io_rec rec_CacheMiss s;
         s2 = (case src of
                 Some a \<Rightarrow> if \<not> suppressMISS sv then sendResponse a msgTypeMISS 0 0 s1 else s1
               | None \<Rightarrow> s1);
         s3 = (case sv_proxy sv of
                 Some enq \<Rightarrow> if \<not> proxied then snd (enq hashKey startSeq subtreeID src s2) else s2
               | None \<Rightarrow> s2)
     in (Missed, s3))"

definition frame_txid :: "bytes \<Rightarrow> bytes" where
  "frame_txid raw = (if 40 \<le> length raw then go_slice 8 40 raw else replicate 32 0)"

definition on_hit :: "'l rate_pkg \<Rightarrow> frame_pkg \<Rightarrow> ('b, ('b, 'l, 'z) world_scheme) Server \<Rightarrow> int \<Rightarrow> bytes \<Rightarrow> bool \<Rightarrow> bytes
    \<Rightarrow> UDPAddr option \<Rightarrow> u64 \<Rightarrow> ('b, 'l, 'z) world_scheme \<Rightarrow> verdict \<times> ('b, 'l, 'z) world_scheme" where
  "on_hit rp F sv now srcIP proxied raw src seqNum s =
    (let s1 = io_rec rec_CacheHit s;
         txID = frame_txid raw
     in case sv_shardEngine sv of
          Some e \<Rightarrow>
            (let (ok, l) = AllowGroup rp srcIP (rl_group F (sv_beefEngine sv) e raw txID) now (lim s1);
                 s2 = s1\<lparr>lim := l\<rparr>
             in if ok then serve_hit sv proxied raw txID src seqNum s2
                else limited sv LevelGroup (Some throttleBucketGroup) src seqNum s2)
        | None \<Rightarrow> serve_hit sv proxied raw txID src seqNum s1)"

definition on_lookup :: "'l rate_pkg \<Rightarrow> frame_pkg \<Rightarrow> ('b, ('b, 'l, 'z) world_scheme) Server \<Rightarrow> int \<Rightarrow> bytes \<Rightarrow> bool
    \<Rightarrow> u64 \<Rightarrow> u64 \<Rightarrow> bytes \<Rightarrow> UDPAddr option \<Rightarrow> ('b, 'l, 'z) world_scheme \<Rightarrow> verdict \<times> ('b, 'l, 'z) world_scheme" where
  "on_lookup rp F sv now srcIP proxied hashKey startSeq subtreeID src s =
    (let (r, w) = Store_Retrieve (sv_cache sv) (PutUint64 hashKey @ PutUint64 startSeq) (stg s);
         s1 = s\<lparr>stg := w\<rparr>
     in case r of
          Inl _ \<Rightarrow> (CacheFailed, io_rec rec_CacheError s1)
        | Inr None \<Rightarrow> on_miss sv proxied hashKey startSeq subtreeID src s1
        | Inr (Some raw) \<Rightarrow> on_hit rp F sv now srcIP proxied raw src startSeq s1)"

definition nack_proxied :: "bytes \<Rightarrow> bool" where
  "nack_proxied d \<longleftrightarrow> d ! 7 AND FlagProxied \<noteq> 0"

definition processNACK :: "'l rate_pkg \<Rightarrow> (nat \<Rightarrow> nat) \<Rightarrow> frame_pkg \<Rightarrow> ('b, ('b, 'l, 'z) world_scheme) Server \<Rightarrow> clock \<Rightarrow> bytes
    \<Rightarrow> UDPAddr option \<Rightarrow> ('b, 'l, 'z) world_scheme \<Rightarrow> (verdict \<times> ('b, 'l, 'z) world_scheme) option" where
  "processNACK rp grow F sv ck d src s0 =
    (let s = io_rec rec_NACKRequest s0 in
     if validateNACK d \<noteq> None then Some (Malformed, s)
     else
       (let proxied = nack_proxied d;
            hashKey = Uint64 (go_slice 8 16 d);
            startSeq = Uint64 (go_slice 16 24 d);
            endSeq = Uint64 (go_slice 24 32 d);
            subtreeID = go_slice 32 64 d
        in if endSeq \<noteq> startSeq then Some (RangeNACK, s)
           else
             (let srcIP = (case src of Some a \<Rightarrow> uIP a | None \<Rightarrow> IPv6unspecified) in
              case Limiter_Allow rp grow srcIP hashKey startSeq (t_IP ck) (t_Seq ck) (lim s) of
                None \<Rightarrow> None
              | Some (Some level, l1) \<Rightarrow>
                  Some (limited sv level (if level = LevelSequence then Some throttleBucketSequence else None)
                          src startSeq (s\<lparr>lim := l1\<rparr>))
              | Some (None, l1) \<Rightarrow>
                 (case AllowChain grow srcIP hashKey (t_Chain ck) l1 of
                    None \<Rightarrow> None
                  | Some (False, l2) \<Rightarrow>
                      Some (limited sv LevelChain (Some throttleBucketChain) src startSeq (s\<lparr>lim := l2\<rparr>))
                  | Some (True, l2) \<Rightarrow>
                      Some (on_lookup rp F sv (t_Group ck) srcIP proxied hashKey startSeq subtreeID src
                              (s\<lparr>lim := l2\<rparr>))))))"

section \<open>The read loop\<close>

text \<open>
  \<^verbatim>\<open>Run\<close> reads into a 64-byte buffer: a longer datagram is cut to 64 bytes by the socket, a shorter one is dropped.
  What is read goes through a channel of capacity 100 to the workers; the loop and the workers are in theory
  \<open>Server_Loop\<close>.
\<close>

definition recv_nack :: "bytes \<Rightarrow> bytes option" where
  "recv_nack pkt = (let b = take NACKSize pkt in if length b \<noteq> NACKSize then None else Some b)"

definition requests_cap :: nat where "requests_cap = 100"

section \<open>Interfaces\<close>

locale proxy_enqueuer =
  fixes PX :: "('b, 'z) pworld_scheme enqueuer"
  assumes enq_frame: "PX h n st req s = (b, s') \<Longrightarrow>
      nw s' = nw s \<and> stg s' = stg s \<and> pworld.more s' = pworld.more s"
    and enq_job: "PX h n st req s = (b, s') \<Longrightarrow>
      pq s' = pq s @ (if b then [\<lparr>j_hashKey = h, j_seq = n, j_subtree = st, j_requester = req\<rparr>] else [])"

interpretation pe: proxy_enqueuer "Enqueue cfg" for cfg
  by unfold_locales (auto simp: Enqueue_def io_rec_def split: if_splits)

locale nack_deps = retransmit_contract RT fanout + proxy_enqueuer PX
  for RT :: "('b, 'l, 'z) world_scheme RetransmitterI" and fanout and PX :: "('b, 'l, 'z) world_scheme enqueuer"

interpretation nd: nack_deps "retransmitter_iface F ga r" "length (rt_sockets r)" "Enqueue cfg" for F ga r cfg ..

section \<open>Lemmas: replies\<close>

lemma length_response_bytes [simp]: "length (response_bytes t f n) = 16"
  by (simp add: response_bytes_def ResponseSize_def)

lemma response_bytes_append:
  "response_bytes t f n = PutUint32 MagicBSV @ PutUint16 ProtoVer @ [t, f] @ PutUint64 n"
  by (simp add: response_bytes_def ResponseSize_def put_at_zeros put_at_zeros_0 flip: append_assoc del: append_assoc)

text \<open>No reply, or the one reply \<open>pkt\<close>, to the requester.\<close>

definition answer :: "UDPAddr option \<Rightarrow> bytes \<Rightarrow> sent list \<Rightarrow> bool" where
  "answer src pkt rs \<longleftrightarrow> rs = [] \<or> (\<exists>a. src = Some a \<and> rs = [\<lparr>via = NackSock, dst = a, payload = pkt\<rparr>])"

lemma reply_sends:
  "\<exists>rs. sends s (reply pkt label a s) rs \<and> answer (Some a) pkt rs"
  "io.more (reply pkt label a s) = io.more s" "stg (reply pkt label a s) = stg s"
proof -
  obtain e t where w: "io_write NackSock pkt a s = (e, t)" by force
  note W = io_write_wire [OF w] sends_write [OF w]
  show "\<exists>rs. sends s (reply pkt label a s) rs \<and> answer (Some a) pkt rs"
    using W by (cases e) (auto simp: reply_def w answer_def)
  show "io.more (reply pkt label a s) = io.more s" "stg (reply pkt label a s) = stg s"
    using W by (cases e; simp add: reply_def w)+
qed

lemma proxied_nack_append:
  "proxied_nack j = PutUint32 MagicBSV @ PutUint16 ProtoVer @ [msgTypeNACK, FlagProxied] @ PutUint64 (j_hashKey j)
     @ PutUint64 (j_seq j) @ PutUint64 (j_seq j) @ copy_array 32 (j_subtree j)"
  by (simp add: proxied_nack_def nackSize_def put_at_zeros put_at_zeros_0 flip: append_assoc del: append_assoc)

section \<open>Lemmas: a hit\<close>

definition ack_flags :: "bool \<Rightarrow> bool \<Rightarrow> byte" where
  "ack_flags mc uc = (if mc then ackFlagMulticastSent else 0) OR (if uc then ackFlagUnicastSent else 0)"

text \<open>
  What a served hit has put on the wire: multicast copies \<open>ms\<close> (dispatched when \<open>mc\<close>), a unicast copy
  \<open>us\<close> (sent when \<open>uc\<close>), and the reply \<open>rs\<close>.
\<close>

definition served :: "('b, 's) Server \<Rightarrow> nat \<Rightarrow> bool \<Rightarrow> bytes \<Rightarrow> UDPAddr option \<Rightarrow> u64 \<Rightarrow> bool \<Rightarrow> bool
    \<Rightarrow> sent list \<Rightarrow> sent list \<Rightarrow> sent list \<Rightarrow> bool" where
  "served sv fanout proxied raw src seqNum mc uc ms us rs \<longleftrightarrow>
     list_all (is_mc raw) ms \<and> (if mc then retransmitMC sv \<and> length ms = fanout else ms = [])
   \<and> (if uc then (retransmitUC sv \<or> proxied) \<and> (\<exists>a. src = Some a \<and> us = [uc_copy raw a]) else us = [])
   \<and> answer src (response_bytes msgTypeACK (ack_flags mc uc) seqNum) rs
   \<and> (rs = [] \<or> \<not> suppressACK sv \<and> (mc \<or> uc \<or> \<not> retransmitMC sv \<and> \<not> retransmitUC sv \<and> \<not> proxied))"

lemma ack_flags_0: "ack_flags mc uc = 0 \<longleftrightarrow> \<not> mc \<and> \<not> uc"
  by (simp add: ack_flags_def server_consts)

lemma io_more_pq: "io.more s' = io.more s \<Longrightarrow> pq s' = pq s \<and> pworld.more s' = pworld.more s"
  by (cases s; cases s') simp

lemma pworld_more_lim: "pworld.more s' = pworld.more s \<Longrightarrow> lim s' = lim s"
  by (cases s; cases s') simp

lemma limited_sends:
  assumes "limited sv level bucket src n s = (v, s')"
  shows "v = Limited level \<and> io.more s' = io.more s \<and> stg s' = stg s
    \<and> (\<exists>rs. sends s s' rs \<and> (rs = [] \<or> throttleResp sv
         \<and> (\<exists>b. bucket = Some b \<and> answer src (response_bytes msgTypeThrottled (b AND 0x0F) n) rs)))"
proof -
  let ?s1 = "io_rec (rec_RateLimitDrop (level_string level)) s"
  have v: "v = Limited level" using assms by (auto simp: limited_def Let_def)
  show ?thesis
  proof (cases "\<exists>b a. bucket = Some b \<and> src = Some a \<and> throttleResp sv")
    case True
    then obtain b a where ba: "bucket = Some b" "src = Some a" "throttleResp sv" by blast
    with assms have "s' = reply (response_bytes msgTypeThrottled (b AND 0x0F) n) ''throttled'' a ?s1"
      by (simp add: limited_def sendThrottled_def Let_def)
    with ba v reply_sends [where s = ?s1 and a = a] show ?thesis by (metis io_rec_simps(1,4) sends_io_rec(1))
  next
    case False
    with assms have "s' = ?s1" by (auto simp: limited_def Let_def split: option.splits if_splits)
    with v show ?thesis by (auto intro: exI [of _ "[]"])
  qed
qed

lemma bucket_nibble: "level_bucket level = Some b \<Longrightarrow> b AND 0x0F = b"
  by (cases level) (auto simp: server_consts)

lemma Limiter_Allow_level:
  "Limiter_Allow rp grow ip h n t1 t2 l = Some (Some level, l') \<Longrightarrow> level \<in> {LevelIP, LevelSequence}"
  by (auto simp: Limiter_Allow_def Let_def split: prod.splits if_splits option.splits)

text \<open>The wire and the queue after a request, by the return statement it reached.\<close>

definition nack_effect :: "nat \<Rightarrow> ('b, 'l, 'z) world_scheme enqueuer \<Rightarrow> ('b, ('b, 'l, 'z) world_scheme) Server \<Rightarrow> bool \<Rightarrow> u64 \<Rightarrow> u64 \<Rightarrow> bytes \<Rightarrow> UDPAddr option
    \<Rightarrow> ('b, 'l, 'z) world_scheme \<Rightarrow> verdict \<Rightarrow> ('b, 'l, 'z) world_scheme \<Rightarrow> bool" where
  "nack_effect fanout PX sv proxied h n st src s v s' \<longleftrightarrow>
    (let cached = fst (Store_Retrieve (sv_cache sv) (PutUint64 h @ PutUint64 n) (stg s)) in
     (case v of
        Limited level \<Rightarrow> \<exists>rs. sends s s' rs \<and> (rs = [] \<or> throttleResp sv
            \<and> (\<exists>b. level_bucket level = Some b \<and> answer src (response_bytes msgTypeThrottled b n) rs))
      | Missed \<Rightarrow> cached = Inr None
          \<and> (\<exists>rs. sends s s' rs \<and> answer src (response_bytes msgTypeMISS 0 0) rs \<and> (rs = [] \<or> \<not> suppressMISS sv))
      | SendFailed \<Rightarrow> \<exists>raw ms. cached = Inr (Some raw) \<and> retransmitMC sv \<and> sends s s' ms \<and> list_all (is_mc raw) ms
      | Served \<Rightarrow> \<exists>raw mc uc ms us rs. cached = Inr (Some raw) \<and> sends s s' (ms @ us @ rs)
          \<and> served sv fanout proxied raw src n mc uc ms us rs
      | _ \<Rightarrow> sends s s' [])
     \<and> (pq s' = pq s \<or> v = Missed \<and> sv_proxy sv = Some PX \<and> \<not> proxied
         \<and> pq s' = pq s @ [\<lparr>j_hashKey = h, j_seq = n, j_subtree = st, j_requester = src\<rparr>]))"

context nack_deps
begin

lemma serve_mc_sends:
  assumes "sv_retransmit sv = RT" and "serve_mc sv raw txID s = (f, s')"
  shows "io.more s' = io.more s \<and> (\<exists>ms. sends s s' ms \<and> list_all (is_mc raw) ms \<and> (ms = [] \<or> retransmitMC sv) \<and>
    (case f of None \<Rightarrow> retransmitMC sv
       | Some f \<Rightarrow> \<exists>mc. f = ack_flags mc False \<and> (if mc then retransmitMC sv \<and> length ms = fanout else ms = [])))"
proof -
  obtain e t where r: "ri_Retransmit RT raw txID s = (e, t)" by force
  from mc_sends [OF r] obtain ms where m: "sends s t ms" "list_all (is_mc raw) ms" "io.more t = io.more s"
    "e = None \<longrightarrow> length ms = fanout" "e = Some ErrDedupSuppressed \<longrightarrow> ms = []" by blast
  show ?thesis
  proof (cases "retransmitMC sv")
    case False
    with assms(2) have "f = Some (ack_flags False False)" "s' = s" by (auto simp: serve_mc_def ack_flags_def)
    then show ?thesis by (auto intro!: exI [of _ "[]"] exI [of _ False])
  next
    case True
    with assms r have "f = (case e of None \<Rightarrow> Some (ack_flags True False)
        | Some ErrDedupSuppressed \<Rightarrow> Some (ack_flags False False) | Some _ \<Rightarrow> None)"
      "s' = (if e = None then io_rec rec_Retransmit t else t)"
      by (auto simp: serve_mc_def ack_flags_def split: option.splits go_error.splits)
    with m True show ?thesis
      by (auto intro!: exI [of _ ms] split: option.splits go_error.splits)
  qed
qed

lemma serve_uc_sends:
  assumes "sv_retransmit sv = RT" and "serve_uc sv proxied raw src (ack_flags mc False) s = (f, s')"
  shows "io.more s' = io.more s \<and> (\<exists>uc us. sends s s' us \<and> f = ack_flags mc uc
    \<and> (if uc then (retransmitUC sv \<or> proxied) \<and> (\<exists>a. src = Some a \<and> us = [uc_copy raw a]) else us = []))"
proof -
  obtain e t where r: "ri_RetransmitUnicast RT raw src s = (e, t)" by force
  note U = uc_sends [OF r]
  show ?thesis
  proof (cases "(retransmitUC sv \<or> proxied) \<and> src \<noteq> None")
    case False
    with assms(2) have "f = ack_flags mc False" "s' = s" by (auto simp: serve_uc_def)
    then show ?thesis by (auto intro!: exI [of _ False] exI [of _ "[]"])
  next
    case True
    with assms r have "f = ack_flags mc (e = None)" "s' = (if e = None then io_rec rec_UnicastRetransmit t else t)"
      by (auto simp: serve_uc_def ack_flags_def split: option.splits)
    with U True show ?thesis
      by (cases e) (auto intro!: exI [of _ "e = None"])
  qed
qed

lemma serve_hit_sends:
  assumes "sv_retransmit sv = RT" and "serve_hit sv proxied raw txID src seqNum s = (v, s')"
  shows "io.more s' = io.more s \<and>
    (v = SendFailed \<and> retransmitMC sv \<and> (\<exists>ms. sends s s' ms \<and> list_all (is_mc raw) ms)
     \<or> v = Served \<and> (\<exists>mc uc ms us rs. sends s s' (ms @ us @ rs) \<and> served sv fanout proxied raw src seqNum mc uc ms us rs))"
proof -
  obtain f1 s1 where m: "serve_mc sv raw txID s = (f1, s1)" by force
  note M = serve_mc_sends [OF assms(1) m]
  show ?thesis
  proof (cases f1)
    case None
    with assms(2) m M show ?thesis by (auto simp: serve_hit_def)
  next
    case (Some f)
    with M obtain ms mc where ms: "sends s s1 ms" "list_all (is_mc raw) ms" "f = ack_flags mc False"
      "if mc then retransmitMC sv \<and> length ms = fanout else ms = []" by auto
    obtain f2 s2 where u: "serve_uc sv proxied raw src (ack_flags mc False) s1 = (f2, s2)" by force
    from serve_uc_sends [OF assms(1) u] obtain uc us where us: "sends s1 s2 us" "f2 = ack_flags mc uc"
      "if uc then (retransmitUC sv \<or> proxied) \<and> (\<exists>a. src = Some a \<and> us = [uc_copy raw a]) else us = []"
      and more: "io.more s2 = io.more s1" by blast
    have su: "sends s s2 (ms @ us)" using sends_trans [OF ms(1) us(1)] .
    have v: "v = Served" using assms(2) m Some ms(3) u by (auto simp: serve_hit_def split: option.splits)
    define ackd where "ackd \<longleftrightarrow> src \<noteq> None \<and> \<not> suppressACK sv \<and> (f2 \<noteq> 0 \<or>
        \<not> (retransmitMC sv \<or> ((retransmitUC sv \<or> proxied) \<and> src \<noteq> None)))"
    have s': "s' = (if ackd then sendResponse (the src) msgTypeACK f2 seqNum s2 else s2)"
      using assms(2) m Some ms(3) u by (auto simp: serve_hit_def ackd_def split: option.splits)
    obtain rs where rs: "sends s2 s' rs" "answer src (response_bytes msgTypeACK (ack_flags mc uc) seqNum) rs"
      "rs = [] \<or> ackd" "io.more s' = io.more s2"
    proof (cases ackd)
      case True
      then obtain a where a: "src = Some a" by (auto simp: ackd_def)
      with True s' have "s' = reply (response_bytes msgTypeACK (ack_flags mc uc) seqNum) ''ack'' a s2"
        by (simp add: sendResponse_def us(2) msg_types)
      with that True a reply_sends [where s = s2 and a = a and label = "''ack''"] show ?thesis by metis
    next
      case False
      with s' that [of "[]"] show ?thesis by (simp add: answer_def)
    qed
    have "served sv fanout proxied raw src seqNum mc uc ms us rs"
      unfolding served_def
      using ms us rs by (auto simp: ackd_def ack_flags_0 split: if_splits)
    moreover have "sends s s' (ms @ us @ rs)" using sends_trans [OF su rs(1)] by simp
    moreover have "io.more s' = io.more s" using rs(4) more M by simp
    ultimately show ?thesis using v by blast
  qed
qed

lemma on_miss_sends:
  assumes "sv_proxy sv \<in> {None, Some PX}" and "on_miss sv proxied h n st src s = (v, s')"
  shows "v = Missed \<and> stg s' = stg s \<and> pworld.more s' = pworld.more s
    \<and> (\<exists>rs. sends s s' rs \<and> answer src (response_bytes msgTypeMISS 0 0) rs \<and> (rs = [] \<or> \<not> suppressMISS sv))
    \<and> (pq s' = pq s \<or> sv_proxy sv = Some PX \<and> \<not> proxied
         \<and> pq s' = pq s @ [\<lparr>j_hashKey = h, j_seq = n, j_subtree = st, j_requester = src\<rparr>])"
proof -
  let ?s1 = "io_rec rec_CacheMiss s"
  define s2 where "s2 = (case src of Some a \<Rightarrow> if \<not> suppressMISS sv then sendResponse a msgTypeMISS 0 0 ?s1 else ?s1 | None \<Rightarrow> ?s1)"
  have s2: "io.more s2 = io.more s \<and> stg s2 = stg s
    \<and> (\<exists>rs. sends s s2 rs \<and> answer src (response_bytes msgTypeMISS 0 0) rs \<and> (rs = [] \<or> \<not> suppressMISS sv))"
  proof (cases "\<exists>a. src = Some a \<and> \<not> suppressMISS sv")
    case True
    then obtain a where a: "src = Some a" "\<not> suppressMISS sv" by blast
    then have "s2 = reply (response_bytes msgTypeMISS 0 0) ''miss'' a ?s1" by (simp add: s2_def sendResponse_def)
    with a reply_sends [where s = ?s1 and a = a] show ?thesis by (metis io_rec_simps(1,4) sends_io_rec(1))
  next
    case False
    then have "s2 = ?s1" by (auto simp: s2_def split: option.splits)
    then show ?thesis by (auto simp: answer_def intro: exI [of _ "[]"])
  qed
  show ?thesis
  proof (cases "sv_proxy sv = Some PX \<and> \<not> proxied")
    case True
    obtain b t where e: "PX h n st src s2 = (b, t)" by force
    with True assms(2) have "v = Missed" "s' = t" by (auto simp: on_miss_def Let_def s2_def [symmetric])
    with enq_frame [OF e] enq_job [OF e] io_more_pq [of s2 s] s2 True show ?thesis
      by (auto simp: sends_def)
  next
    case False
    with assms have "v = Missed" "s' = s2" by (auto simp: on_miss_def Let_def s2_def [symmetric])
    with io_more_pq [of s2 s] s2 show ?thesis by auto
  qed
qed

lemma nack_effect_cong:
  assumes "nw t = nw s" and "stg t = stg s" and "pq t = pq s"
  shows "nack_effect fanout PX sv proxied h n st src t v s' \<longleftrightarrow> nack_effect fanout PX sv proxied h n st src s v s'"
proof -
  have eq: "sends t s' = sends s s'" using assms(1) by (simp add: sends_def fun_eq_iff)
  show ?thesis unfolding nack_effect_def eq assms ..
qed

lemma on_lookup_effect:
  assumes "sv_retransmit sv = RT" and "sv_proxy sv \<in> {None, Some PX}"
    and "on_lookup rp F sv now srcIP proxied h n st src s = (v, s')"
  shows "nack_effect fanout PX sv proxied h n st src s v s'"
proof -
  obtain r w where g: "Store_Retrieve (sv_cache sv) (PutUint64 h @ PutUint64 n) (stg s) = (r, w)" by force
  show ?thesis
  proof (cases r)
    case (Inl e)
    with assms(3) g show ?thesis by (auto simp: on_lookup_def nack_effect_def sends_def io_rec_def)
  next
    case (Inr x)
    show ?thesis
    proof (cases x)
      case None
      with assms(3) g Inr have "on_miss sv proxied h n st src (s\<lparr>stg := w\<rparr>) = (v, s')" by (simp add: on_lookup_def)
      from on_miss_sends [OF assms(2) this] Inr None g show ?thesis
        by (auto simp: nack_effect_def sends_def)
    next
      case (Some raw)
      let ?t = "s\<lparr>stg := w\<rparr>"
      from assms(3) g Inr Some have h: "on_hit rp F sv now srcIP proxied raw src n ?t = (v, s')"
        by (simp add: on_lookup_def)
      have serve: "nack_effect fanout PX sv proxied h n st src s v s'"
        if "serve_hit sv proxied raw (frame_txid raw) src n t = (v, s')" "nw t = nw s" "pq t = pq s" for t
        using serve_hit_sends [OF assms(1) that(1)] that(2,3) io_more_pq [of s' t] Inr Some g
        by (auto simp: nack_effect_def sends_def) blast
      have lim: "nack_effect fanout PX sv proxied h n st src s v s'"
        if "limited sv LevelGroup (Some throttleBucketGroup) src n t = (v, s')" "nw t = nw s" "pq t = pq s" for t
        using limited_sends [OF that(1)] that(2,3) io_more_pq [of s' t] bucket_nibble [of LevelGroup]
        by (auto simp: nack_effect_def sends_def)
      show ?thesis
        using h serve lim by (auto simp: on_hit_def Let_def io_rec_def split: option.splits prod.splits if_splits)
    qed
  qed
qed

lemma processNACK_effect:
  assumes "sv_retransmit sv = RT" and "sv_proxy sv \<in> {None, Some PX}"
    and "processNACK rp grow F sv ck d src s = Some (v, s')"
  shows "v \<in> {Malformed, RangeNACK} \<and> s' = io_rec rec_NACKRequest s
     \<and> (validateNACK d \<noteq> None \<or> Uint64 (go_slice 24 32 d) \<noteq> Uint64 (go_slice 16 24 d))
   \<or> validateNACK d = None \<and> Uint64 (go_slice 24 32 d) = Uint64 (go_slice 16 24 d) \<and> v \<notin> {Malformed, RangeNACK}
     \<and> nack_effect fanout PX sv (nack_proxied d) (Uint64 (go_slice 8 16 d)) (Uint64 (go_slice 16 24 d)) (go_slice 32 64 d) src s v s'"
proof (cases "validateNACK d \<noteq> None \<or> Uint64 (go_slice 24 32 d) \<noteq> Uint64 (go_slice 16 24 d)")
  case True
  with assms(3) show ?thesis by (auto simp: processNACK_def Let_def split: if_splits)
next
  case False
  let ?h = "Uint64 (go_slice 8 16 d)" and ?n = "Uint64 (go_slice 16 24 d)"
  define ip where "ip = (case src of Some a \<Rightarrow> uIP a | None \<Rightarrow> IPv6unspecified)"
  let ?s = "\<lambda>l. (io_rec rec_NACKRequest s)\<lparr>lim := l\<rparr>"
  let ?goal = "nack_effect fanout PX sv (nack_proxied d) ?h ?n (go_slice 32 64 d) src s v s' \<and> v \<notin> {Malformed, RangeNACK}"
  have eff: ?goal
    if "on_lookup rp F sv (t_Group ck) ip (nack_proxied d) ?h ?n (go_slice 32 64 d) src (?s l) = (v, s')" for l
  proof -
    have "v \<notin> {Malformed, RangeNACK}"
      using that by (auto simp: on_lookup_def on_miss_def on_hit_def limited_def serve_hit_def Let_def
          split: prod.splits sum.splits option.splits if_splits)
    moreover have "nack_effect fanout PX sv (nack_proxied d) ?h ?n (go_slice 32 64 d) src s v s'"
      using on_lookup_effect [OF assms(1,2) that] nack_effect_cong [of "?s l" s] by (simp add: io_rec_def)
    ultimately show ?thesis by simp
  qed
  have lim: ?goal
    if "limited sv level b src ?n (?s l) = (v, s')" "b = level_bucket level" for level b l
    using limited_sends [OF that(1)] that(2) io_more_pq [of s' "?s l"] bucket_nibble [of level]
    by (auto simp: nack_effect_def sends_def io_rec_def)
  have ?goal
  proof (cases "Limiter_Allow rp grow ip ?h ?n (t_IP ck) (t_Seq ck) (lim (io_rec rec_NACKRequest s))")
    case None
    with assms(3) False show ?thesis by (simp add: processNACK_def ip_def [symmetric])
  next
    case (Some x)
    obtain lo l1 where x: "x = (lo, l1)" by force
    show ?thesis
    proof (cases lo)
      case (Some level)
      let ?b = "if level = LevelSequence then Some throttleBucketSequence else None"
      from Some assms(3) False \<open>_ = Some x\<close> x have "limited sv level ?b src ?n (?s l1) = (v, s')"
        by (simp add: processNACK_def ip_def [symmetric])
      moreover have "level \<in> {LevelIP, LevelSequence}"
        using Limiter_Allow_level \<open>_ = Some x\<close> x Some by blast
      then have "?b = level_bucket level" by auto
      ultimately show ?thesis by (rule lim)
    next
      case None
      show ?thesis
      proof (cases "AllowChain grow ip ?h (t_Chain ck) l1")
        case None
        with assms(3) False \<open>_ = Some x\<close> x \<open>lo = None\<close> show ?thesis by (simp add: processNACK_def ip_def [symmetric])
      next
        case (Some y)
        obtain ok l2 where y: "y = (ok, l2)" by force
        show ?thesis
        proof (cases ok)
          case True
          with assms(3) False \<open>_ = Some x\<close> x \<open>lo = None\<close> Some y show ?thesis
            by (intro eff [of l2]) (simp add: processNACK_def ip_def [symmetric])
        next
          case nok: False
          with assms(3) False \<open>_ = Some x\<close> x \<open>lo = None\<close> Some y show ?thesis
            by (intro lim [of LevelChain "Some throttleBucketChain" l2]) (simp_all add: processNACK_def ip_def [symmetric])
        qed
      qed
    qed
  qed
  with False show ?thesis by simp
qed

end

end
