(* ===== verification/Nack_Properties.thy ===== *)
theory Nack_Properties
  imports Nack_Server
begin

text \<open>
  The properties of the NACK server (\<^verbatim>\<open>src/server/server.go\<close>) over the wiring that \<^verbatim>\<open>main.go\<close> makes: the
  retransmitter of package \<^verbatim>\<open>retransmit\<close> and, optionally, the client of package \<^verbatim>\<open>proxy\<close>.
\<close>

section \<open>The limiter never panics\<close>

definition limiter_ok :: "int \<Rightarrow> 'l Limiter \<Rightarrow> bool" where
  "limiter_ok now l \<longleftrightarrow>
     (\<exists>w m. lim_inv w m (chainLimiter l)) \<and> (\<forall>k. \<forall>t \<in> set (hist_of (chainLimiter l) k). t \<le> now)
   \<and> (\<exists>w m. lim_inv w m (sequenceLimiter l)) \<and> (\<forall>k. \<forall>t \<in> set (hist_of (sequenceLimiter l) k). t \<le> now)"

context key_window
begin

lemma step_total:
  assumes "inv w m s" and "\<forall>k. \<forall>t \<in> set (hist s k). t \<le> now"
  shows "\<exists>b s'. allow k now s = Some (b, s') \<and> inv w m s' \<and> (\<forall>k. \<forall>t \<in> set (hist s' k). t \<le> now)"
proof -
  have "agree w now s (hist s)" by (simp add: agree_def)
  from agree_step [OF assms this, of k] show ?thesis by metis
qed

end

lemma limiter_ok_later: "limiter_ok t l \<Longrightarrow> t \<le> t' \<Longrightarrow> limiter_ok t' l"
  by (force simp: limiter_ok_def)

lemma new_limiter_ok: "limiter_ok t (newLimiter cfg)"
  by (auto simp: limiter_ok_def newLimiter_def Let_def new_hist intro: new_lim_inv)

lemma Limiter_Allow_ok:
  assumes "limiter_ok t l" and "t \<le> tS"
  shows "\<exists>lv l'. Limiter_Allow rp grow ip h n tI tS l = Some (lv, l') \<and> limiter_ok tS l'"
proof -
  obtain ok ipl where tb: "tb_Allow rp (IP_String ip) tI (ipLimiter l) = (ok, ipl)" by force
  have ok': "limiter_ok tS l" using limiter_ok_later [OF assms] .
  then obtain w m where "lim_inv w m (sequenceLimiter l)" "\<forall>k. \<forall>t \<in> set (hist_of (sequenceLimiter l) k). t \<le> tS"
    by (auto simp: limiter_ok_def)
  from sw.step_total [OF this, of grow "\<lparr>sk_hashKey = h, sk_seqNum = n\<rparr>"] obtain b sl where
    s: "allowLocked grow \<lparr>sk_hashKey = h, sk_seqNum = n\<rparr> tS (sequenceLimiter l) = Some (b, sl)" "lim_inv w m sl"
      "\<forall>k. \<forall>t \<in> set (hist_of sl k). t \<le> tS" by blast
  then show ?thesis
    using ok' tb by (cases ok) (auto simp: Limiter_Allow_def limiter_ok_def)
qed

lemma AllowChain_ok:
  assumes "limiter_ok t l" and "t \<le> tC"
  shows "\<exists>b l'. AllowChain grow ip h tC l = Some (b, l') \<and> limiter_ok tC l'"
proof -
  have ok': "limiter_ok tC l" using limiter_ok_later [OF assms] .
  then obtain w m where "lim_inv w m (chainLimiter l)" "\<forall>k. \<forall>t \<in> set (hist_of (chainLimiter l) k). t \<le> tC"
    by (auto simp: limiter_ok_def)
  from sw.step_total [OF this, of grow "\<lparr>ck_ip = ipKey ip, ck_hashKey = h\<rparr>"] obtain b sl where
    s: "allowLocked grow \<lparr>ck_ip = ipKey ip, ck_hashKey = h\<rparr> tC (chainLimiter l) = Some (b, sl)" "lim_inv w m sl"
      "\<forall>k. \<forall>t \<in> set (hist_of sl k). t \<le> tC" by blast
  then show ?thesis
    using ok' by (cases "h = 0") (auto simp: AllowChain_def limiter_ok_def)
qed

text \<open>\<open>AllowGroup\<close> and everything after it in the handler leave the two window tiers alone.\<close>

lemma AllowGroup_only: "AllowGroup rp ip g now l = (b, l') \<Longrightarrow> \<exists>gl. l' = l\<lparr>groupLimiter := gl\<rparr>"
  by (auto simp: AllowGroup_def split: prod.splits)

lemma limiter_ok_group [simp]: "limiter_ok t (l\<lparr>groupLimiter := gl\<rparr>) = limiter_ok t l"
  by (simp add: limiter_ok_def)

context nack_deps
begin

lemma on_lookup_lim:
  assumes "sv_retransmit sv = RT" and "sv_proxy sv \<in> {None, Some PX}"
    and "on_lookup rp F sv now ip proxied h n st src s = (v, s')"
  shows "\<exists>gl. lim s' = (lim s)\<lparr>groupLimiter := gl\<rparr>"
proof -
  have same: "\<exists>gl. l = l\<lparr>groupLimiter := gl\<rparr>" for l :: "'l Limiter"
    by (rule exI [of _ "groupLimiter l"]) simp
  have lim_eq: "lim a = lim b" if "io.more a = io.more b" for a b :: "('b, 'l, 'z) world_scheme"
    using that io_more_pq pworld_more_lim by blast
  have sh: "lim b = lim a" if "serve_hit sv proxied raw tx src n a = (v, b)" for raw tx a b
    using serve_hit_sends [OF assms(1) that] lim_eq by blast
  have ld: "lim b = lim a" if "limited sv lv bk src n a = (v, b)" for lv bk and a b :: "('b, 'l, 'z) world_scheme"
    using limited_sends [OF that] lim_eq by blast
  have ms: "lim b = lim a" if "on_miss sv proxied h n st src a = (v, b)" for a b
    using on_miss_sends [OF assms(2) that] pworld_more_lim by blast
  have rec_lim: "lim (io_rec f a) = lim a" for f and a :: "('b, 'l, 'z) world_scheme"
    by (simp add: io_rec_def)
  have hit: "\<exists>gl. lim b = (lim a)\<lparr>groupLimiter := gl\<rparr>" if "on_hit rp F sv now ip proxied raw src n a = (v, b)" for raw a b
    using that sh ld AllowGroup_only same
    by (fastforce simp: on_hit_def Let_def rec_lim split: option.splits prod.splits if_splits)
  obtain r w where g: "Store_Retrieve (sv_cache sv) (PutUint64 h @ PutUint64 n) (stg s) = (r, w)" by force
  show ?thesis
  proof (cases r)
    case (Inl e)
    with assms(3) g same show ?thesis by (auto simp: on_lookup_def rec_lim)
  next
    case (Inr x)
    with assms(3) g hit [of _ "s\<lparr>stg := w\<rparr>" s'] ms [of "s\<lparr>stg := w\<rparr>" s'] same show ?thesis
      by (cases x) (auto simp: on_lookup_def)
  qed
qed

lemma processNACK_total:
  assumes "sv_retransmit sv = RT" and "sv_proxy sv \<in> {None, Some PX}"
    and "limiter_ok t (lim s)" and "t \<le> t_Seq ck" and "t_Seq ck \<le> t_Chain ck"
  shows "\<exists>v s'. processNACK rp grow F sv ck d src s = Some (v, s') \<and> limiter_ok (t_Chain ck) (lim s')"
proof (cases "validateNACK d \<noteq> None \<or> Uint64 (go_slice 24 32 d) \<noteq> Uint64 (go_slice 16 24 d)")
  case True
  with limiter_ok_later [OF assms(3)] assms(4,5) show ?thesis
    by (auto simp: processNACK_def Let_def io_rec_def)
next
  case False
  define ip where "ip = (case src of Some a \<Rightarrow> uIP a | None \<Rightarrow> IPv6unspecified)"
  let ?h = "Uint64 (go_slice 8 16 d)" and ?n = "Uint64 (go_slice 16 24 d)"
  have l0: "lim (io_rec rec_NACKRequest s) = lim s" by (simp add: io_rec_def)
  have ld: "limiter_ok tt (lim b) = limiter_ok tt (lim a)" if "limited sv lv bk src m a = (v, b)"
    for lv bk v m tt and a b :: "('b, 'l, 'z) world_scheme"
    using limited_sends [OF that] io_more_pq [of b a] pworld_more_lim [of b a] by simp
  obtain lv l1 where a1: "Limiter_Allow rp grow ip ?h ?n (t_IP ck) (t_Seq ck) (lim s) = Some (lv, l1)" "limiter_ok (t_Seq ck) l1"
    using Limiter_Allow_ok [OF assms(3,4)] by blast
  obtain b l2 where a2: "AllowChain grow ip ?h (t_Chain ck) l1 = Some (b, l2)" "limiter_ok (t_Chain ck) l2"
    using AllowChain_ok [OF a1(2) assms(5)] by blast
  show ?thesis
  proof (cases lv)
    case (Some level)
    let ?l = "limited sv level (if level = LevelSequence then Some throttleBucketSequence else None) src ?n
      ((io_rec rec_NACKRequest s)\<lparr>lim := l1\<rparr>)"
    have "processNACK rp grow F sv ck d src s = Some (fst ?l, snd ?l)"
      using False a1 Some by (simp add: processNACK_def ip_def [symmetric] l0)
    moreover have "limiter_ok (t_Chain ck) (lim (snd ?l))"
      using ld [of _ _ _ "(io_rec rec_NACKRequest s)\<lparr>lim := l1\<rparr>" "fst ?l" "snd ?l"] limiter_ok_later [OF a1(2) assms(5)]
      by (simp add: prod_eq_iff)
    ultimately show ?thesis by blast
  next
    case None
    let ?r = "if b then on_lookup rp F sv (t_Group ck) ip (nack_proxied d) ?h ?n (go_slice 32 64 d) src
        ((io_rec rec_NACKRequest s)\<lparr>lim := l2\<rparr>)
      else limited sv LevelChain (Some throttleBucketChain) src ?n ((io_rec rec_NACKRequest s)\<lparr>lim := l2\<rparr>)"
    have "processNACK rp grow F sv ck d src s = Some (fst ?r, snd ?r)"
      using False a1 a2 None by (cases b) (simp_all add: processNACK_def ip_def [symmetric] l0)
    moreover have "limiter_ok (t_Chain ck) (lim (snd ?r))"
    proof (cases b)
      case True
      then have "\<exists>gl. lim (snd ?r) = l2\<lparr>groupLimiter := gl\<rparr>"
        using on_lookup_lim [OF assms(1,2) prod.collapse [symmetric], of rp F "t_Group ck" ip "nack_proxied d" ?h ?n
          "go_slice 32 64 d" src "(io_rec rec_NACKRequest s)\<lparr>lim := l2\<rparr>"] by simp
      with a2(2) show ?thesis by (metis limiter_ok_group)
    next
      case False
      with ld [of _ _ _ "(io_rec rec_NACKRequest s)\<lparr>lim := l2\<rparr>" "fst ?r" "snd ?r"] a2(2) show ?thesis by (simp add: prod_eq_iff)
    qed
    ultimately show ?thesis by blast
  qed
qed

end

section \<open>Lemmas: a hit is repaired\<close>

lemma reply_up:
  assumes "net_up s"
  shows "sends s (reply pkt label a s) [\<lparr>via = NackSock, dst = a, payload = pkt\<rparr>]"
proof -
  obtain e t where w: "io_write NackSock pkt a s = (e, t)" by force
  with io_write_up [OF assms w] sends_write [OF w] show ?thesis by (simp add: reply_def)
qed

text \<open>The unicast copy and the reply of a hit, when both can be sent.\<close>

definition uc_wanted :: "('b, 's) Server \<Rightarrow> bool \<Rightarrow> bool" where
  "uc_wanted sv proxied \<longleftrightarrow> retransmitUC sv \<or> proxied"

definition ack_to :: "UDPAddr \<Rightarrow> bool \<Rightarrow> bool \<Rightarrow> u64 \<Rightarrow> sent" where
  "ack_to a mc uc n = \<lparr>via = NackSock, dst = a, payload = response_bytes msgTypeACK (ack_flags mc uc) n\<rparr>"

lemma serve_uc_up:
  assumes "sv_retransmit sv = retransmitter_iface F ga r" and "net_up s" and "uc_wanted sv proxied \<longrightarrow> rt_unicastConn r"
  shows "\<exists>s'. serve_uc sv proxied raw (Some a) (ack_flags mc False) s = (ack_flags mc (uc_wanted sv proxied), s')
    \<and> sends s s' (if uc_wanted sv proxied then [uc_copy raw a] else [])"
proof (cases "uc_wanted sv proxied")
  case True
  then obtain t where t: "RetransmitUnicast r raw (Some a) s = (None, t)"
    using RetransmitUnicast_up assms(2,3) by blast
  with True RetransmitUnicast_sends [OF t] assms(1) show ?thesis
    by (auto simp: serve_uc_def uc_wanted_def retransmitter_iface_def ack_flags_def)
next
  case False
  then show ?thesis by (auto simp: serve_uc_def uc_wanted_def)
qed

lemma serve_hit_up:
  assumes "sv_retransmit sv = retransmitter_iface F ga r" and "net_up s" and "rt_dedup r = None"
    and "targetGroup F ga r raw tx = Inr grp" and "retransmitMC sv" and "\<not> suppressACK sv"
    and "uc_wanted sv proxied \<longrightarrow> rt_unicastConn r"
  shows "\<exists>s'. serve_hit sv proxied raw tx (Some a) n s = (Served, s')
    \<and> sends s s' (mc_copies (map fst (rt_sockets r)) raw grp @ (if uc_wanted sv proxied then [uc_copy raw a] else [])
        @ [ack_to a True (uc_wanted sv proxied) n])"
proof -
  obtain t where t: "Retransmit F ga r raw tx s = (None, t)" "sends s t (mc_copies (map fst (rt_sockets r)) raw grp)"
    using Retransmit_up [OF assms(2-4)] by blast
  let ?s1 = "io_rec rec_Retransmit t"
  have mc: "serve_mc sv raw tx s = (Some (ack_flags True False), ?s1)"
    using assms(1,5) t(1) by (simp add: serve_mc_def retransmitter_iface_def ack_flags_def)
  have up1: "net_up ?s1" using sends_net_up [OF t(2)] assms(2) by simp
  obtain s2 where s2: "serve_uc sv proxied raw (Some a) (ack_flags True False) ?s1 = (ack_flags True (uc_wanted sv proxied), s2)"
    "sends ?s1 s2 (if uc_wanted sv proxied then [uc_copy raw a] else [])"
    using serve_uc_up [OF assms(1) up1 assms(7)] by blast
  let ?pkt = "response_bytes msgTypeACK (ack_flags True (uc_wanted sv proxied)) n"
  have "net_up s2" using sends_net_up [OF s2(2)] up1 by simp
  from sends_trans [OF sends_trans [OF t(2)] reply_up [OF this, of ?pkt "''ack''" a], OF s2(2) [simplified]]
  have "sends s (reply ?pkt ''ack'' a s2) (mc_copies (map fst (rt_sockets r)) raw grp
      @ (if uc_wanted sv proxied then [uc_copy raw a] else []) @ [ack_to a True (uc_wanted sv proxied) n])"
    by (simp add: ack_to_def)
  moreover have "serve_hit sv proxied raw tx (Some a) n s = (Served, reply ?pkt ''ack'' a s2)"
    using mc s2(1) assms(6) by (simp add: serve_hit_def sendResponse_def ack_flags_0 msg_types)
  ultimately show ?thesis by blast
qed

lemma processNACK_lookup:
  assumes "processNACK rp grow F sv ck d src s = Some (v, s')" and "\<forall>l. v \<noteq> Limited l"
    and "validateNACK d = None" and "Uint64 (go_slice 24 32 d) = Uint64 (go_slice 16 24 d)"
  obtains ip l where "on_lookup rp F sv (t_Group ck) ip (nack_proxied d) (Uint64 (go_slice 8 16 d))
    (Uint64 (go_slice 16 24 d)) (go_slice 32 64 d) src ((io_rec rec_NACKRequest s)\<lparr>lim := l\<rparr>) = (v, s')"
proof -
  define ip where "ip = (case src of Some a \<Rightarrow> uIP a | None \<Rightarrow> IPv6unspecified)"
  have nl: "limited sv lv b src n t \<noteq> (v, s')" for lv b n t
    using assms(2) by (auto simp: limited_def Let_def)
  from assms(1,3,4) nl that [of ip] show ?thesis
    by (auto simp: processNACK_def ip_def [symmetric] Let_def split: option.splits prod.splits bool.splits)
qed

section \<open>Properties\<close>

text \<open>The wiring of \<^verbatim>\<open>main.go\<close>, the cached frame a request asks for, and the datagrams on the NACK socket.\<close>

definition nack_wired :: "('b, ('b, 'l, 'z) world_scheme) Server \<Rightarrow> frame_pkg \<Rightarrow> group_addr \<Rightarrow> 'b Retransmitter
    \<Rightarrow> ('b, 's) ProxyConfig \<Rightarrow> bool" where
  "nack_wired sv F ga r pcfg \<longleftrightarrow>
     sv_retransmit sv = retransmitter_iface F ga r \<and> sv_proxy sv \<in> {None, Some (Enqueue pcfg)}"

definition nack_cached :: "('b, 's) Server \<Rightarrow> bytes \<Rightarrow> ('b, 'z) io_scheme \<Rightarrow> go_error + bytes option" where
  "nack_cached sv d s = fst (Store_Retrieve (sv_cache sv) (go_slice 8 24 d) (stg s))"

definition replies :: "sent list \<Rightarrow> sent list" where
  "replies xs = filter (\<lambda>x. via x = NackSock) xs"

lemma nack_key:
  assumes "validateNACK d = None"
  shows "PutUint64 (Uint64 (go_slice 8 16 d)) @ PutUint64 (Uint64 (go_slice 16 24 d)) = go_slice 8 24 d"
proof -
  have "64 \<le> length d" using assms by (simp add: validateNACK_def NACKSize_def split: if_splits)
  then show ?thesis by (simp add: PutUint64_Uint64 go_slice_split [of 8 16 24])
qed

lemma wired_effect:
  assumes "nack_wired sv F ga r pcfg" and "processNACK rp grow F sv ck d src s = Some (v, s')"
  shows "v \<in> {Malformed, RangeNACK} \<and> s' = io_rec rec_NACKRequest s
    \<or> validateNACK d = None \<and> v \<notin> {Malformed, RangeNACK}
      \<and> nack_effect (length (rt_sockets r)) (Enqueue pcfg) sv (nack_proxied d) (Uint64 (go_slice 8 16 d)) (Uint64 (go_slice 16 24 d)) (go_slice 32 64 d) src s v s'"
  using nd.processNACK_effect [OF _ _ assms(2)] assms(1) by (auto simp: nack_wired_def)

lemma served_replies:
  assumes "served sv fanout proxied raw src n mc uc ms us rs"
  shows "replies (ms @ us @ rs) = rs" and "length rs \<le> 1"
    and "\<forall>x \<in> set rs. src = Some (dst x) \<and> payload x = response_bytes msgTypeACK (ack_flags mc uc) n"
proof -
  have "replies ms = []" "replies us = []"
    using assms by (auto simp: served_def replies_def list_all_iff is_mc_def uc_copy_def filter_empty_conv split: if_splits)
  moreover have "replies rs = rs" "length rs \<le> 1"
    "\<forall>x \<in> set rs. src = Some (dst x) \<and> payload x = response_bytes msgTypeACK (ack_flags mc uc) n"
    using assms by (auto simp: served_def replies_def answer_def)
  ultimately show "replies (ms @ us @ rs) = rs" and "length rs \<le> 1"
    and "\<forall>x \<in> set rs. src = Some (dst x) \<and> payload x = response_bytes msgTypeACK (ack_flags mc uc) n"
    by (simp_all add: replies_def)
qed

text \<open>The replies of a request, by verdict.\<close>

lemma wired_replies:
  assumes "nack_wired sv F ga r pcfg" and "processNACK rp grow F sv ck d src s = Some (v, s')"
  shows "\<exists>xs. sends s s' xs \<and> length (replies xs) \<le> 1
    \<and> (\<forall>x \<in> set (replies xs). src = Some (dst x) \<and> length (payload x) = 16
        \<and> (payload x ! 6 = msgTypeACK \<longrightarrow> v = Served))
    \<and> (v \<notin> {Served, SendFailed} \<longrightarrow> replies xs = xs) \<and> (v = Limited LevelIP \<longrightarrow> xs = [])"
proof -
  have ty: "response_bytes t f n ! 6 = t" for t f n by (simp add: response_bytes_append nth_append)
  have ans: "length (replies rs) \<le> 1 \<and> replies rs = rs
      \<and> (\<forall>x \<in> set rs. src = Some (dst x) \<and> length (payload x) = 16 \<and> payload x ! 6 = t)"
    if "answer src (response_bytes t f n) rs" for t f n rs
    using that by (auto simp: answer_def replies_def ty)
  consider "sends s s' []" | raw ms where "v = SendFailed" "sends s s' ms" "list_all (is_mc raw) ms"
    | raw mc uc ms us rs where "v = Served" "sends s s' (ms @ us @ rs)"
        "served sv (length (rt_sockets r)) (nack_proxied d) raw src (Uint64 (go_slice 16 24 d)) mc uc ms us rs"
    | rs t f n where "sends s s' rs" "answer src (response_bytes t f n) rs" "t \<noteq> msgTypeACK" "v \<noteq> Limited LevelIP"
    using wired_effect [OF assms]
    by (cases v) (fastforce simp: nack_effect_def Let_def msg_types msgTypeThrottled_def)+
  then show ?thesis
  proof cases
    case 1
    then show ?thesis by (intro exI [of _ "[]"]) (simp add: replies_def)
  next
    case 2
    then have "replies ms = []" by (auto simp: replies_def list_all_iff is_mc_def filter_empty_conv)
    with 2 show ?thesis by (intro exI [of _ ms]) simp
  next
    case 3
    with served_replies [OF 3(3)] show ?thesis by (intro exI [of _ "ms @ us @ rs"]) simp
  next
    case 4
    with ans [OF 4(2)] show ?thesis by (intro exI [of _ rs]) auto
  qed
qed


text \<open>
  C21: Replies cannot be used for amplification.  A request gets at most one reply, of 16 bytes, to its own source
  address; a request that is not served from the cache causes no other datagram at all; and a request rejected by the per-IP
  flood tier causes none, whatever the throttle setting.
\<close>

theorem reply_bounded:
  assumes "nack_wired sv F ga r pcfg" and "processNACK rp grow F sv ck d src s = Some (v, s')"
  shows "\<exists>xs. sends s s' xs \<and> length (replies xs) \<le> 1
    \<and> list_all (\<lambda>x. src = Some (dst x) \<and> length (payload x) = ResponseSize) (replies xs)
    \<and> (v \<in> {Served, SendFailed} \<or> replies xs = xs) \<and> (v = Limited LevelIP \<longrightarrow> xs = [])"
  using wired_replies [OF assms] by (auto simp: list_all_iff ResponseSize_def)

text \<open>
  C7: A proxied NACK is never proxied again.  A request with the proxied flag leaves the proxy queue alone, and
  any other request adds at most its own gap, with its own requester, and only after a cache miss; so recovery chains have
  one hop.
\<close>

theorem one_hop:
  assumes "nack_wired sv F ga r pcfg" and "processNACK rp grow F sv ck d src s = Some (v, s')"
  shows "pq s' = pq s \<or> \<not> nack_proxied d \<and> v = Missed \<and> nack_cached sv d s = Inr None
    \<and> pq s' = pq s @ [\<lparr>j_hashKey = Uint64 (go_slice 8 16 d), j_seq = Uint64 (go_slice 16 24 d),
                       j_subtree = go_slice 32 64 d, j_requester = src\<rparr>]"
  using wired_effect [OF assms]
  by (auto simp: nack_effect_def Let_def nack_cached_def nack_key io_rec_def)

lemma repair_wire:
  assumes "nack_wired sv F ga r pcfg" and "validateNACK d = None" and "Uint64 (go_slice 24 32 d) = Uint64 (go_slice 16 24 d)"
    and "processNACK rp grow F sv ck d (Some a) s = Some (v, s')" and "\<forall>l. v \<noteq> Limited l"
    and "nack_cached sv d s = Inr (Some raw)" and "targetGroup F ga r raw (frame_txid raw) = Inr grp"
    and "retransmitMC sv" and "\<not> suppressACK sv" and "rt_dedup r = None" and "net_up s"
    and "uc_wanted sv (nack_proxied d) \<longrightarrow> rt_unicastConn r"
  shows "v = Served \<and> sends s s' (mc_copies (map fst (rt_sockets r)) raw grp
      @ (if uc_wanted sv (nack_proxied d) then [uc_copy raw a] else [])
      @ [ack_to a True (uc_wanted sv (nack_proxied d)) (Uint64 (go_slice 16 24 d))])"
proof -
  let ?n = "Uint64 (go_slice 16 24 d)"
  have rt: "sv_retransmit sv = retransmitter_iface F ga r" using assms(1) by (simp add: nack_wired_def)
  obtain ip l where lk: "on_lookup rp F sv (t_Group ck) ip (nack_proxied d) (Uint64 (go_slice 8 16 d)) ?n (go_slice 32 64 d)
      (Some a) ((io_rec rec_NACKRequest s)\<lparr>lim := l\<rparr>) = (v, s')"
    using processNACK_lookup [OF assms(4,5,2,3)] by blast
  obtain w where "Store_Retrieve (sv_cache sv) (go_slice 8 24 d) (stg s) = (Inr (Some raw), w)"
    using assms(6) by (auto simp: nack_cached_def prod_eq_iff)
  with lk nack_key [OF assms(2)] have "on_hit rp F sv (t_Group ck) ip (nack_proxied d) raw (Some a) ?n
      ((io_rec rec_NACKRequest s)\<lparr>lim := l, stg := w\<rparr>) = (v, s')"
    by (simp add: on_lookup_def io_rec_def)
  moreover have "limited sv lv b src n t \<noteq> (v, s')" for lv b src n t
    using assms(5) by (auto simp: limited_def Let_def)
  ultimately obtain t where t: "serve_hit sv (nack_proxied d) raw (frame_txid raw) (Some a) ?n t = (v, s')" "nw t = nw s"
    by (auto simp: on_hit_def Let_def io_rec_def split: option.splits prod.splits if_splits)
  have "net_up t" using assms(11) t(2) by (simp add: net_up_def)
  from serve_hit_up [OF rt this assms(10,7,8,9,12), of a ?n] t show ?thesis by (auto simp: sends_def)
qed

text \<open>
  C5: A cached frame is repaired.  For a well-formed single-frame request that no rate-limit tier rejects and whose frame is cached,
  with multicast on, no dedup store, the frame's group derivable and the network up, the server puts exactly these on the wire,
  in this order: the cached bytes on every egress socket to the frame's group, a unicast copy to the requester if unicast
  mode is on or the request is proxied, and one ACK whose flags say which of the two were sent.
\<close>

theorem nack_repair:
  assumes "nack_wired sv F ga r pcfg" and "validateNACK d = None" and "Uint64 (go_slice 24 32 d) = Uint64 (go_slice 16 24 d)"
    and "processNACK rp grow F sv ck d (Some a) s = Some (v, s')" and "\<forall>l. v \<noteq> Limited l"
    and "nack_cached sv d s = Inr (Some raw)" and "targetGroup F ga r raw (frame_txid raw) = Inr grp"
    and "retransmitMC sv" and "\<not> suppressACK sv" and "rt_dedup r = None" and "net_up s"
    and "uc_wanted sv (nack_proxied d) \<longrightarrow> rt_unicastConn r"
  shows "v = Served \<and> sends s s' (mc_copies (map fst (rt_sockets r)) raw grp
      @ (if uc_wanted sv (nack_proxied d) then [uc_copy raw a] else [])
      @ [ack_to a True (uc_wanted sv (nack_proxied d)) (Uint64 (go_slice 16 24 d))])"
  using repair_wire [OF assms] .

text \<open>A run of requests, in the order the workers take them.\<close>

fun serve_reqs :: "'l rate_pkg \<Rightarrow> (nat \<Rightarrow> nat) \<Rightarrow> frame_pkg \<Rightarrow> ('b, ('b, 'l, 'z) world_scheme) Server
    \<Rightarrow> (clock \<times> bytes \<times> UDPAddr option) list \<Rightarrow> ('b, 'l, 'z) world_scheme \<Rightarrow> (verdict list \<times> ('b, 'l, 'z) world_scheme) option" where
  "serve_reqs rp grow F sv [] s = Some ([], s)"
| "serve_reqs rp grow F sv ((ck, d, src) # reqs) s =
     (case processNACK rp grow F sv ck d src s of
        None \<Rightarrow> None
      | Some (v, s1) \<Rightarrow> (case serve_reqs rp grow F sv reqs s1 of None \<Rightarrow> None | Some (vs, s2) \<Rightarrow> Some (v # vs, s2)))"

fun clocks_from :: "int \<Rightarrow> (clock \<times> bytes \<times> UDPAddr option) list \<Rightarrow> bool" where
  "clocks_from t [] = True"
| "clocks_from t ((ck, d, src) # reqs) = (t \<le> t_Seq ck \<and> t_Seq ck \<le> t_Chain ck \<and> clocks_from (t_Chain ck) reqs)"

lemma serve_reqs_total:
  assumes "nack_wired sv F ga r pcfg"
  shows "limiter_ok t (lim s) \<Longrightarrow> clocks_from t reqs \<Longrightarrow>
    \<exists>vs s'. serve_reqs rp grow F sv reqs s = Some (vs, s') \<and> length vs = length reqs"
proof (induction reqs arbitrary: t s)
  case (Cons q reqs)
  obtain ck d src where q: "q = (ck, d, src)" by (cases q) auto
  have "sv_retransmit sv = retransmitter_iface F ga r" "sv_proxy sv \<in> {None, Some (Enqueue pcfg)}"
    using assms by (simp_all add: nack_wired_def)
  from nd.processNACK_total [OF this Cons.prems(1), of ck] Cons.prems(2) q obtain v s1 where
    "processNACK rp grow F sv ck d src s = Some (v, s1)" "limiter_ok (t_Chain ck) (lim s1)" by fastforce
  with Cons.IH [of "t_Chain ck" s1] Cons.prems(2) q show ?case by auto
qed simp

text \<open>
  The server survives every input.  Whatever datagrams arrive, from whatever sources, in whatever number, a server started with a
  fresh limiter processes each of them to a verdict: no index or slice expression of the handler or of the limiter's event logs ever
  panics, as long as the monotonic clock does not run backwards.
\<close>

lemma server_never_panics:
  assumes "nack_wired sv F ga r pcfg" and "lim s = newLimiter rlcfg" and "clocks_from t reqs"
  shows "\<exists>vs s'. serve_reqs rp grow F sv reqs s = Some (vs, s') \<and> length vs = length reqs"
  using serve_reqs_total [OF assms(1)] new_limiter_ok assms(2,3) by metis

section \<open>Concrete instances\<close>

text \<open>A token bucket that never refills, a server with one egress socket, and a cache that holds one frame.\<close>

definition ex_rp :: "nat rate_pkg" where
  "ex_rp = \<lparr>NewLimiter = (\<lambda>r b. nat b), RLAllow = (\<lambda>now n. (0 < n, n - 1))\<rparr>"

definition ex_rlcfg :: RLConfig where
  "ex_rlcfg = \<lparr>IPRate = 10, IPBurst = 5, SenderRate = 0, SenderWindow = 0, ChainRate = 5, ChainWindow = 60, SequenceMax = 3,
     SequenceWindow = 60, GroupRate = 10, GroupBurst = 5\<rparr>"

definition ex_rt1 :: "(bytes, bytes) amap Retransmitter" where
  "ex_rt1 = snd (Retransmitter_Open (\<lambda>_. None) None (new_Retransmitter ref_engine [''eth0''] 9001 60 None))"

definition ex_server :: "((bytes, bytes) amap, ((bytes, bytes) amap, nat) world) Server" where
  "ex_server = SetProxy (Some (Enqueue ex_pcfg)) (SetShardEngine (Some ref_engine)
     (server_New 9300 ex_cache (retransmitter_iface ref_frame_pkg ref_group_addr ex_rt1) 4 False))"

definition ex_world :: "(bytes, bytes) amap \<Rightarrow> ((bytes, bytes) amap, nat) world" where
  "ex_world w = \<lparr>stg = w, nw = ex_net, rcd = None, pq = [], lim = newLimiter ex_rlcfg\<rparr>"

definition ex_stored :: "(bytes, bytes) amap" where
  "ex_stored = snd (Store_Store ex_cache (PutUint64 1 @ PutUint64 2) (ex_frame 1 2 2) 60 [])"

definition ex_clock :: clock where
  "ex_clock = \<lparr>t_IP = 1, t_Seq = 1, t_Chain = 1, t_Group = 1\<rparr>"

definition ex_src :: UDPAddr where
  "ex_src = \<lparr>uIP = [10, 0, 0, 1], uPort = 9300\<rparr>"

definition ex_run :: "bytes \<Rightarrow> (bytes, bytes) amap \<Rightarrow> (verdict \<times> ((bytes, bytes) amap, nat) world) option" where
  "ex_run d w = processNACK ex_rp (\<lambda>n. 2 * n) ref_frame_pkg ex_server ex_clock d (Some ex_src) (ex_world w)"

lemma ex_wired: "nack_wired ex_server ref_frame_pkg ref_group_addr ex_rt1 ex_pcfg"
  by (simp add: nack_wired_def ex_server_def server_New_def SetProxy_def SetShardEngine_def)

lemma ex_run_hit:
  "ex_run (proxied_nack ex_job) ex_stored \<noteq> None" "fst (the (ex_run (proxied_nack ex_job) ex_stored)) = Served"
  "wire (nw (snd (the (ex_run (proxied_nack ex_job) ex_stored)))) =
     [\<lparr>via = EgressSock ''eth0'', dst = Addr_at ref_engine 0 9001, payload = ex_frame 1 2 2\<rparr>,
      uc_copy (ex_frame 1 2 2) ex_src, ack_to ex_src True True 2]"
  by code_simp+

definition ex_gap :: bytes where
  "ex_gap = (proxied_nack ex_job)[7 := 0]"

lemma ex_run_miss:
  "ex_run ex_gap [] \<noteq> None" "fst (the (ex_run ex_gap [])) = Missed" "pq (snd (the (ex_run ex_gap []))) \<noteq> []"
  by code_simp+

lemma ex_run_eq: "ex_run d w \<noteq> None \<Longrightarrow> processNACK ex_rp (\<lambda>n. 2 * n) ref_frame_pkg ex_server ex_clock d (Some ex_src) (ex_world w)
    = Some (fst (the (ex_run d w)), snd (the (ex_run d w)))"
  by (simp add: ex_run_def)

lemma ex_sends:
  assumes "wire (nw s') = xs" and "wr_fail (nw s') = wr_fail ex_net"
  shows "sends (ex_world w) s' xs"
  using assms by (simp add: sends_def ex_world_def ex_net_def)


theorem reply_bounded_witness:
  "\<exists>xs. sends (ex_world ex_stored) (snd (the (ex_run (proxied_nack ex_job) ex_stored))) xs \<and> length (replies xs) \<le> 1"
  using reply_bounded [OF ex_wired ex_run_eq [OF ex_run_hit(1)]] by blast

theorem one_hop_witness:
  "length (pq (snd (the (ex_run ex_gap [])))) = 1 \<and> pq (snd (the (ex_run (proxied_nack ex_job) ex_stored))) = []"
proof -
  have "nack_proxied (proxied_nack ex_job)" by code_simp
  with one_hop [OF ex_wired ex_run_eq [OF ex_run_hit(1)]] one_hop [OF ex_wired ex_run_eq [OF ex_run_miss(1)]] ex_run_miss(3)
  show ?thesis by (auto simp: ex_world_def)
qed

theorem nack_repair_witness:
  "sends (ex_world ex_stored) (snd (the (ex_run (proxied_nack ex_job) ex_stored)))
     (mc_copies [''eth0''] (ex_frame 1 2 2) (Addr_at ref_engine 0 9001) @ [uc_copy (ex_frame 1 2 2) ex_src]
       @ [ack_to ex_src True True 2])"
proof -
  have pre: "validateNACK (proxied_nack ex_job) = None"
    "Uint64 (go_slice 24 32 (proxied_nack ex_job)) = 2" "Uint64 (go_slice 16 24 (proxied_nack ex_job)) = 2"
    "nack_cached ex_server (proxied_nack ex_job) (ex_world ex_stored) = Inr (Some (ex_frame 1 2 2))"
    "targetGroup ref_frame_pkg ref_group_addr ex_rt1 (ex_frame 1 2 2) (frame_txid (ex_frame 1 2 2)) = Inr (Addr_at ref_engine 0 9001)"
    "map fst (rt_sockets ex_rt1) = [''eth0'']" "retransmitMC ex_server" "\<not> suppressACK ex_server" "rt_unicastConn ex_rt1"
    "uc_wanted ex_server (nack_proxied (proxied_nack ex_job))"
    by code_simp+
  have "rt_dedup ex_rt1 = None" by (simp add: ex_rt1_def Retransmitter_Open_def new_Retransmitter_def)
  moreover have "net_up (ex_world ex_stored)" by (simp add: net_up_def ex_world_def ex_net_def)
  ultimately show ?thesis
    using nack_repair [OF ex_wired pre(1) _ ex_run_eq [OF ex_run_hit(1)] _ pre(4,5)] pre ex_run_hit(2) by auto
qed

end
