(* ===== verification/Ingress_Worker.thy ===== *)
theory Ingress_Worker
  imports Nack_Proxy "HOL-Library.Multiset"
begin

text \<open>
  The ingress worker of \<^verbatim>\<open>src/ingress/ingress.go\<close>: dispatch on the frame class, decoding, the drop of
  unstamped frames, the cache store under HashKey and SeqNum with the TTL of the class, the partition of groups over
  workers and the (re)assertion of group memberships; sockets and \<^verbatim>\<open>Run\<close> are in \<open>Ingress_Sockets\<close>, the receive loop in
  \<open>Ingress_Pipeline\<close>.  Decoders are the parameter \<open>frame_pkg\<close>; \<^verbatim>\<open>netjoin.Join\<close> is a
  parameter of \<open>joinAll\<close>.  \<^verbatim>\<open>ingress.TTLConfig\<close> and \<^verbatim>\<open>proxy.TTLConfig\<close> have the same fields and share a record.
\<close>

section \<open>The worker\<close>

definition socketRecvBuf :: int where "socketRecvBuf = 64 * 1024 * 1024"

type_synonym GroupSources = "(Addr, Addr list) amap"

record 'b Worker =
  w_iface :: "string option"
  w_port :: int
  w_groups :: "UDPAddr list"
  w_sources :: "GroupSources option"
  w_cache :: "'b Store"
  w_ttls :: TTLConfig
  w_recvBuf :: int
  w_queueDepth :: int
  w_procs :: int

definition ingress_New :: "string option \<Rightarrow> int \<Rightarrow> UDPAddr list \<Rightarrow> 'b Store \<Rightarrow> TTLConfig \<Rightarrow> 'b Worker" where
  "ingress_New iface port groups cache ttls =
    \<lparr>w_iface = iface, w_port = port, w_groups = groups, w_sources = None, w_cache = cache, w_ttls = ttls,
     w_recvBuf = 0, w_queueDepth = 0, w_procs = 0\<rparr>"

definition SetRecvBuf :: "int \<Rightarrow> 'b Worker \<Rightarrow> 'b Worker" where "SetRecvBuf n w = w\<lparr>w_recvBuf := n\<rparr>"
definition SetGroupSources :: "GroupSources \<Rightarrow> 'b Worker \<Rightarrow> 'b Worker" where "SetGroupSources src w = w\<lparr>w_sources := Some src\<rparr>"

definition recvBufBytes :: "'b Worker \<Rightarrow> int" where
  "recvBufBytes w = (if 0 < w_recvBuf w then w_recvBuf w else socketRecvBuf)"

section \<open>Partition\<close>

text \<open>\<^verbatim>\<open>out[i%n] = append(out[i%n], g)\<close> for every group.\<close>

definition Partition :: "'g list \<Rightarrow> int \<Rightarrow> 'g list list" where
  "Partition groups n =
    (let m = (if int (length groups) < n then int (length groups) else n) in
     if m < 1 then [groups]
     else foldl (\<lambda>out (i, g). out[i mod nat m := out ! (i mod nat m) @ [g]])
            (replicate (nat m) []) (List.enumerate 0 groups))"

section \<open>Joins\<close>

text \<open>
  \<open>joinAll\<close> returns its error and the joins it asked for, in order; \<open>join\<close> is the outcome of \<^verbatim>\<open>netjoin.Join\<close>.
\<close>

fun join_groups :: "(Addr \<Rightarrow> Addr list \<Rightarrow> go_error option) \<Rightarrow> GroupSources option \<Rightarrow> bool \<Rightarrow> UDPAddr list
    \<Rightarrow> go_error option \<times> (Addr \<times> Addr list) list" where
  "join_groups join sources first [] = (None, [])"
| "join_groups join sources first (grp # grps) =
     (let ga = AddrFromSlice (case To16 (uIP grp) of Some b \<Rightarrow> b | None \<Rightarrow> []) in
      if ga = InvalidAddr then (Some (Errorf ''ingress: bad group address''), [])
      else
        (let srcs = (case sources of None \<Rightarrow> [] | Some m \<Rightarrow> (case amap_get m ga of None \<Rightarrow> [] | Some l \<Rightarrow> l)) in
         case join ga srcs of
           Some e \<Rightarrow>
             if first then (Some (Errorf ''ingress: join group''), [(ga, srcs)])
             else (let (err, js) = join_groups join sources first grps in (err, (ga, srcs) # js))
         | None \<Rightarrow> (let (err, js) = join_groups join sources first grps in (err, (ga, srcs) # js))))"

definition joinAll :: "(Addr \<Rightarrow> Addr list \<Rightarrow> go_error option) \<Rightarrow> 'b Worker \<Rightarrow> bool \<Rightarrow> go_error option \<times> (Addr \<times> Addr list) list" where
  "joinAll join w first = join_groups join (w_sources w) first (w_groups w)"

text \<open>
  \<^verbatim>\<open>reassertJoins\<close> over \<open>n\<close> ticks of its timer (one every \<^verbatim>\<open>joinInterval\<close>): the joins it asks for; \<open>join i\<close> are the outcomes
  at tick \<open>i\<close>.
\<close>

definition joinInterval :: int where "joinInterval = 30 * 1000000000"

fun reassertJoins :: "(nat \<Rightarrow> Addr \<Rightarrow> Addr list \<Rightarrow> go_error option) \<Rightarrow> 'b Worker \<Rightarrow> nat \<Rightarrow> (Addr \<times> Addr list) list" where
  "reassertJoins join w 0 = []"
| "reassertJoins join w (Suc n) = reassertJoins join w n @ snd (joinAll (join n) w False)"

section \<open>Storing a frame\<close>

text \<open>
  The common part of all seven handlers after decoding: count the frame, skip it when unstamped, store it under
  HashKey and SeqNum, count the outcome.
\<close>

definition store_stamped :: "'b Worker \<Rightarrow> bytes \<Rightarrow> string \<Rightarrow> u64 \<Rightarrow> u64 \<Rightarrow> int \<Rightarrow> ('b, 'z) io_scheme \<Rightarrow> ('b, 'z) io_scheme" where
  "store_stamped w raw src hashKey seqNum ttl s =
    (let s1 = io_rec rec_FrameReceived s in
     if seqNum = 0 then s1
     else
       (let (err, st) = Store_Store (w_cache w) (PutUint64 hashKey @ PutUint64 seqNum) raw ttl (stg s1);
            s2 = s1\<lparr>stg := st\<rparr>
        in if err \<noteq> None then io_rec rec_CacheError s2
           else io_rec (rec_FrameCached src) s2))"

definition decode_error :: "('b, 'z) io_scheme \<Rightarrow> ('b, 'z) io_scheme" where
  "decode_error s = io_rec (rec_FrameDropped ''decode_error'') s"

definition processBEEFFrame :: "frame_pkg \<Rightarrow> 'b Worker \<Rightarrow> bytes \<Rightarrow> string \<Rightarrow> ('b, 'z) io_scheme \<Rightarrow> ('b, 'z) io_scheme" where
  "processBEEFFrame F w raw src s =
    (case DecodeBEEF F raw of
       Inl _ \<Rightarrow> decode_error s
     | Inr f \<Rightarrow> store_stamped w raw src (HashKey f) (SeqNum f) (ttl_BEEF (w_ttls w)) s)"

definition fragment_ttl :: "TTLConfig \<Rightarrow> byte \<Rightarrow> int" where
  "fragment_ttl ttls ov =
    (if ov = FrameVerV4 then ttl_Block ttls
     else if ov = FrameVerV5 then ttl_Subtree ttls
     else if ov = FrameVerV6 then ttl_Anchor ttls
     else if ov = FrameVerV9 then ttl_BEEF ttls
     else ttl_Tx ttls)"

definition processFragmentFrame :: "frame_pkg \<Rightarrow> 'b Worker \<Rightarrow> bytes \<Rightarrow> string \<Rightarrow> ('b, 'z) io_scheme \<Rightarrow> ('b, 'z) io_scheme" where
  "processFragmentFrame F w raw src s =
    (case DecodeFragment F raw of
       Inl _ \<Rightarrow> decode_error s
     | Inr f \<Rightarrow> store_stamped w raw src (HashKey f) (SeqNum f) (fragment_ttl (w_ttls w) (OrigFrameVer f)) s)"

text \<open>\<open>bundleKey\<close> returns HashKey, SeqNum and the member count.\<close>

definition bundleKey :: "bytes \<Rightarrow> string + (u64 \<times> u64 \<times> int)" where
  "bundleKey raw =
    (if length raw < bundle_HeaderSize then Inl ''bundle: too short''
     else if Uint32 (go_slice 0 4 raw) \<noteq> MagicBSV then Inl ''bundle: bad magic''
     else if raw ! 6 \<noteq> FrameVerV8 then Inl ''bundle: bad version''
     else if length raw - bundle_HeaderSize < unat (Uint32 (go_slice 62 66 raw)) then Inl ''bundle: truncated''
     else Inr (Uint64 (go_slice 40 48 raw), Uint64 (go_slice 48 56 raw), uint (Uint16 (go_slice 60 62 raw))))"

definition processBundleFrame :: "'b Worker \<Rightarrow> bytes \<Rightarrow> string \<Rightarrow> ('b, 'z) io_scheme \<Rightarrow> ('b, 'z) io_scheme" where
  "processBundleFrame w raw src s =
    (case bundleKey raw of
       Inl _ \<Rightarrow> decode_error s
     | Inr (hashKey, seqNum, members) \<Rightarrow> store_stamped w raw src hashKey seqNum (ttl_Tx (w_ttls w)) s)"

definition processBlockFrame :: "frame_pkg \<Rightarrow> 'b Worker \<Rightarrow> bytes \<Rightarrow> string \<Rightarrow> ('b, 'z) io_scheme \<Rightarrow> ('b, 'z) io_scheme" where
  "processBlockFrame F w raw src s =
    (case DecodeBlock F raw of
       Inl _ \<Rightarrow> decode_error s
     | Inr f \<Rightarrow> store_stamped w raw src (HashKey f) (SeqNum f) (ttl_Block (w_ttls w)) s)"

definition processSubtreeDataFrame :: "frame_pkg \<Rightarrow> 'b Worker \<Rightarrow> bytes \<Rightarrow> string \<Rightarrow> ('b, 'z) io_scheme \<Rightarrow> ('b, 'z) io_scheme" where
  "processSubtreeDataFrame F w raw src s =
    (case DecodeSubtreeData F raw of
       Inl _ \<Rightarrow> decode_error s
     | Inr f \<Rightarrow> store_stamped w raw src (HashKey f) (SeqNum f) (ttl_Subtree (w_ttls w)) s)"

definition processAnchorFrame :: "frame_pkg \<Rightarrow> 'b Worker \<Rightarrow> bytes \<Rightarrow> string \<Rightarrow> ('b, 'z) io_scheme \<Rightarrow> ('b, 'z) io_scheme" where
  "processAnchorFrame F w raw src s =
    (case DecodeAnchor F raw of
       Inl _ \<Rightarrow> decode_error s
     | Inr f \<Rightarrow> store_stamped w raw src (HashKey f) (SeqNum f) (ttl_Anchor (w_ttls w)) s)"

definition processFrame :: "frame_pkg \<Rightarrow> 'b Worker \<Rightarrow> bytes \<Rightarrow> string \<Rightarrow> ('b, 'z) io_scheme \<Rightarrow> ('b, 'z) io_scheme" where
  "processFrame F w raw src s =
    (if IsBlockFrame F raw then processBlockFrame F w raw src s
     else if IsSubtreeDataFrame F raw then processSubtreeDataFrame F w raw src s
     else if IsAnchorFrame F raw then processAnchorFrame F w raw src s
     else if IsBundle F raw then processBundleFrame w raw src s
     else if IsBEEFFrame F raw then processBEEFFrame F w raw src s
     else if IsFragment F raw then processFragmentFrame F w raw src s
     else (case Decode F raw of
             Inl _ \<Rightarrow> decode_error s
           | Inr f \<Rightarrow> store_stamped w raw src (HashKey f) (SeqNum f) (ttl_Tx (w_ttls w)) s))"

section \<open>Lemmas: one handler for all classes\<close>

text \<open>Which decoder a frame goes to, and the TTL of its class, as the wire format has them.\<close>

definition class_decode :: "frame_pkg \<Rightarrow> bytes \<Rightarrow> string + flow_hdr" where
  "class_decode F raw =
    (if raw ! 6 = FrameVerV4 then DecodeBlock F raw
     else if raw ! 6 = FrameVerV5 then DecodeSubtreeData F raw
     else if raw ! 6 = FrameVerV6 then DecodeAnchor F raw
     else if raw ! 6 = FrameVerV8 then map_sum id (\<lambda>(h, n, m). \<lparr>HashKey = h, SeqNum = n\<rparr>) (bundleKey raw)
     else if raw ! 6 = FrameVerV9 then DecodeBEEF F raw
     else if raw ! 6 = FrameVerV3 then map_sum id flow_hdr.truncate (DecodeFragment F raw)
     else Decode F raw)"

definition class_ttl :: "frame_pkg \<Rightarrow> TTLConfig \<Rightarrow> bytes \<Rightarrow> int" where
  "class_ttl F ttls raw =
    (if raw ! 6 = FrameVerV3 then (case DecodeFragment F raw of Inr f \<Rightarrow> fragment_ttl ttls (OrigFrameVer f) | Inl _ \<Rightarrow> ttl_Tx ttls)
     else fragment_ttl ttls (raw ! 6))"

lemma processFrame_class:
  assumes "frame_versions F" and "7 \<le> length raw"
  shows "processFrame F w raw src s =
    (case class_decode F raw of
       Inl _ \<Rightarrow> decode_error s
     | Inr f \<Rightarrow> store_stamped w raw src (HashKey f) (SeqNum f) (class_ttl F (w_ttls w) raw) s)"
proof -
  have "IsBlockFrame F raw = (raw ! 6 = FrameVerV4)" "IsSubtreeDataFrame F raw = (raw ! 6 = FrameVerV5)"
    "IsAnchorFrame F raw = (raw ! 6 = FrameVerV6)" "IsBundle F raw = (raw ! 6 = FrameVerV8)"
    "IsBEEFFrame F raw = (raw ! 6 = FrameVerV9)" "IsFragment F raw = (raw ! 6 = FrameVerV3)"
    using assms by (simp_all add: frame_versions_def)
  then show ?thesis
    by (auto simp: processFrame_def class_decode_def class_ttl_def fragment_ttl_def processBlockFrame_def
        processSubtreeDataFrame_def processAnchorFrame_def processBundleFrame_def processBEEFFrame_def
        processFragmentFrame_def flow_hdr.defs frame_vers split: sum.splits)
qed

lemma bundleKey_offsets:
  "bundleKey raw = Inr (h, n, m) \<Longrightarrow> 56 \<le> length raw \<and> h = Uint64 (go_slice 40 48 raw) \<and> n = Uint64 (go_slice 48 56 raw)"
  by (auto simp: bundleKey_def bundle_HeaderSize_def split: if_splits)

lemma class_decode_offsets:
  assumes "frame_offsets F" and "class_decode F raw = Inr f"
  shows "hdr_at_offsets raw f"
proof -
  have "hdr_at_offsets raw (flow_hdr.truncate g)" if "DecodeFragment F raw = Inr g" for g
    using that assms(1) by (auto simp: frame_offsets_def hdr_at_offsets_def flow_hdr.defs)
  then show ?thesis
    using assms bundleKey_offsets [of raw]
    by (auto simp: class_decode_def frame_offsets_def hdr_at_offsets_def map_sum_def split: if_splits sum.splits)
qed

text \<open>Frames too short for a flow key are never stored, whatever class they claim.\<close>

lemma processFrame_short:
  assumes "frame_offsets F" and "length raw < 56"
  shows "processFrame F w raw src s = decode_error s"
proof -
  have no: "\<not> hdr_at_offsets raw h" for h :: "'h flow_hdr_scheme"
    using assms(2) by (simp add: hdr_at_offsets_def)
  have d: "\<exists>e. DecodeBlock F raw = Inl e" "\<exists>e. DecodeSubtreeData F raw = Inl e" "\<exists>e. DecodeAnchor F raw = Inl e"
    "\<exists>e. DecodeBEEF F raw = Inl e" "\<exists>e. DecodeFragment F raw = Inl e" "\<exists>e. Decode F raw = Inl e"
    using assms(1) no unfolding frame_offsets_def by (metis sum.exhaust)+
  have "\<exists>e. bundleKey raw = Inl e" using assms(2) by (simp add: bundleKey_def bundle_HeaderSize_def)
  with d show ?thesis
    by (auto simp: processFrame_def processBlockFrame_def processSubtreeDataFrame_def processAnchorFrame_def
        processBundleFrame_def processBEEFFrame_def processFragmentFrame_def)
qed

lemma store_stamped_key:
  assumes "hdr_at_offsets raw f"
  shows "PutUint64 (HashKey f) @ PutUint64 (SeqNum f) = go_slice 40 56 raw"
proof -
  have "56 \<le> length raw" and f: "HashKey f = Uint64 (go_slice 40 48 raw)" "SeqNum f = Uint64 (go_slice 48 56 raw)"
    using assms by (simp_all add: hdr_at_offsets_def)
  then show ?thesis by (simp add: PutUint64_Uint64 go_slice_split [of 40 48 56])
qed

lemma store_stamped_stg:
  "stg (store_stamped w raw src h n ttl s) =
     (if n = 0 then stg s else snd (Store_Store (w_cache w) (PutUint64 h @ PutUint64 n) raw ttl (stg s)))"
  "nw (store_stamped w raw src h n ttl s) = nw s"
  by (simp_all add: store_stamped_def Let_def split: prod.splits)

text \<open>The effect of one datagram on the storage.\<close>

definition store_frame :: "frame_pkg \<Rightarrow> 'b Worker \<Rightarrow> bytes \<Rightarrow> 'b \<Rightarrow> 'b" where
  "store_frame F w raw b =
    (if 56 \<le> length raw \<and> Uint64 (go_slice 48 56 raw) \<noteq> 0 \<and> (\<exists>h. class_decode F raw = Inr h)
     then snd (Store_Store (w_cache w) (go_slice 40 56 raw) raw (class_ttl F (w_ttls w) raw) b)
     else b)"

lemma processFrame_stg:
  assumes "frame_offsets F" and "frame_versions F"
  shows "stg (processFrame F w raw src s) = store_frame F w raw (stg s) \<and> nw (processFrame F w raw src s) = nw s"
proof (cases "length raw < 56")
  case True
  with processFrame_short [OF assms(1) True, of w src s] show ?thesis by (simp add: decode_error_def store_frame_def)
next
  case False
  then have pf: "processFrame F w raw src s =
    (case class_decode F raw of Inl _ \<Rightarrow> decode_error s
     | Inr f \<Rightarrow> store_stamped w raw src (HashKey f) (SeqNum f) (class_ttl F (w_ttls w) raw) s)"
    using processFrame_class [OF assms(2), of raw w src s] by simp
  show ?thesis
  proof (cases "class_decode F raw")
    case (Inl e)
    with pf show ?thesis by (simp add: decode_error_def store_frame_def)
  next
    case (Inr f)
    note h = class_decode_offsets [OF assms(1) Inr]
    with pf Inr False store_stamped_key [OF h] show ?thesis
      by (simp add: store_stamped_stg hdr_at_offsets_def store_frame_def)
  qed
qed

section \<open>Lemmas: partition\<close>

definition spread :: "nat \<Rightarrow> (nat \<times> 'g) list \<Rightarrow> 'g list list \<Rightarrow> 'g list list" where
  "spread m igs out = foldl (\<lambda>out (i, g). out[i mod m := out ! (i mod m) @ [g]]) out igs"

lemma spread_snoc:
  "spread m (igs @ [(i, g)]) out = (let o1 = spread m igs out in o1[i mod m := o1 ! (i mod m) @ [g]])"
  by (simp add: spread_def Let_def)

lemma length_spread [simp]: "length (spread m igs out) = length out"
  by (induction igs arbitrary: out) (auto simp: spread_def split: prod.splits)

lemma mset_concat_update:
  "k < length out \<Longrightarrow> mset (concat (out[k := out ! k @ [g]])) = add_mset g (mset (concat out))"
  by (induction out arbitrary: k) (auto split: nat.splits)

lemma enumerate_snoc: "List.enumerate 0 (gs @ [g]) = List.enumerate 0 gs @ [(length gs, g)]"
  by (simp add: enumerate_append_eq)

lemma spread_mset:
  assumes "0 < m"
  shows "mset (concat (spread m (List.enumerate 0 gs) (replicate m []))) = mset gs"
proof (induction gs rule: rev_induct)
  case Nil
  then show ?case by (simp add: spread_def)
next
  case (snoc g gs)
  with assms show ?case by (simp add: enumerate_snoc spread_snoc Let_def mset_concat_update)
qed

lemma spread_length:
  assumes "0 < m" and "j < m"
  shows "length (spread m (List.enumerate 0 gs) (replicate m []) ! j) = length gs div m + (if j < length gs mod m then 1 else 0)"
proof (induction gs rule: rev_induct)
  case Nil
  with assms show ?case by (simp add: spread_def)
next
  case (snoc g gs)
  let ?o = "spread m (List.enumerate 0 gs) (replicate m [])"
  have "length (spread m (List.enumerate 0 (gs @ [g])) (replicate m []) ! j)
      = length (?o ! j) + (if j = length gs mod m then 1 else 0)"
    using assms by (simp add: enumerate_snoc spread_snoc Let_def nth_list_update)
  moreover have "Suc (length gs) div m + (if j < Suc (length gs) mod m then 1 else 0)
      = length gs div m + (if j < length gs mod m then 1 else 0) + (if j = length gs mod m then 1 else 0)"
    using assms by (auto simp: div_Suc mod_Suc)
  ultimately show ?case using snoc by simp
qed

lemma Partition_spread:
  assumes "\<not> min n (int (length groups)) < 1"
  shows "Partition groups n =
    spread (nat (min n (int (length groups)))) (List.enumerate 0 groups) (replicate (nat (min n (int (length groups)))) [])"
  using assms by (auto simp: Partition_def spread_def Let_def min_def)

lemma Partition_mset: "mset (concat (Partition groups n)) = mset groups"
proof (cases "min n (int (length groups)) < 1")
  case True
  then show ?thesis by (auto simp: Partition_def Let_def split: if_splits)
next
  case False
  then have "0 < nat (min n (int (length groups)))" by linarith
  then show ?thesis by (simp only: Partition_spread [OF False] spread_mset)
qed

section \<open>Lemmas: joins\<close>

text \<open>The join that a group asks for: its 16-byte address and its configured sources.\<close>

definition want_join :: "GroupSources option \<Rightarrow> UDPAddr \<Rightarrow> Addr \<times> Addr list" where
  "want_join sources grp =
    (let ga = AddrFromSlice (case To16 (uIP grp) of Some b \<Rightarrow> b | None \<Rightarrow> [])
     in (ga, case sources of None \<Rightarrow> [] | Some m \<Rightarrow> (case amap_get m ga of None \<Rightarrow> [] | Some l \<Rightarrow> l)))"

definition group_ok :: "UDPAddr \<Rightarrow> bool" where
  "group_ok grp \<longleftrightarrow> length (uIP grp) \<in> {4, 16}"

lemma want_join_valid: "fst (want_join sources grp) \<noteq> InvalidAddr \<longleftrightarrow> group_ok grp"
  by (auto simp: want_join_def Let_def group_ok_def To16_def AddrFromSlice_def)

lemma join_groups_step:
  "join_groups join sources first (grp # grps) =
     (if \<not> group_ok grp then (Some (Errorf ''ingress: bad group address''), [])
      else let (ga, srcs) = want_join sources grp in
        if first \<and> join ga srcs \<noteq> None then (Some (Errorf ''ingress: join group''), [(ga, srcs)])
        else map_prod id (Cons (ga, srcs)) (join_groups join sources first grps))"
  using want_join_valid [of sources grp]
  by (auto simp: want_join_def Let_def split: option.splits prod.splits)

declare join_groups.simps(2) [simp del]

lemma join_groups_first:
  "fst (join_groups join sources True grps) = None \<longleftrightarrow>
     list_all (\<lambda>g. group_ok g \<and> case_prod join (want_join sources g) = None) grps"
  "fst (join_groups join sources True grps) = None \<Longrightarrow> snd (join_groups join sources True grps) = map (want_join sources) grps"
  by (induction grps) (auto simp: join_groups_step Let_def split: prod.splits if_splits)

lemma join_groups_again:
  "list_all group_ok grps \<Longrightarrow> join_groups join sources False grps = (None, map (want_join sources) grps)"
  by (induction grps) (auto simp: join_groups_step Let_def split: prod.splits)

lemma join_groups_sub: "set (snd (join_groups join sources first grps)) \<subseteq> want_join sources ` set grps"
  by (induction grps) (auto simp: join_groups_step Let_def split: prod.splits if_splits)

section \<open>Properties\<close>

text \<open>
  C10: Exactly the stamped, well-formed frames are cached.  A datagram of any of the seven classes changes the storage only if its class
  decoder accepts it and its SeqNum is not zero; then it makes one store, of the unmodified bytes, under the 16 bytes at offset
  40 (HashKey and SeqNum), with the TTL of its class, a fragment taking the TTL of the class it was cut from.
\<close>

theorem ingress_stores:
  assumes "frame_offsets F" and "frame_versions F"
  shows "stg (processFrame F w raw src s) =
    (if 56 \<le> length raw \<and> Uint64 (go_slice 48 56 raw) \<noteq> 0 \<and> (\<exists>h. class_decode F raw = Inr h)
     then snd (Store_Store (w_cache w) (go_slice 40 56 raw) raw (class_ttl F (w_ttls w) raw) (stg s))
     else stg s)
    \<and> nw (processFrame F w raw src s) = nw s"
  using processFrame_stg [OF assms, of w raw src s] by (simp add: store_frame_def)

text \<open>
  C34: Every datagram is counted.  It counts either as a decode error or as received, never both; it counts as cached, under the
  source it is labelled with, exactly if its store succeeded, and as a cache error exactly if its store failed.
\<close>

theorem ingress_counts:
  assumes "frame_offsets F" and "frame_versions F" and "rcd s = Some R" and "source_table_ok R"
    and "s' = processFrame F w raw src s"
    and "stored = (56 \<le> length raw \<and> Uint64 (go_slice 48 56 raw) \<noteq> 0 \<and> (\<exists>h. class_decode F raw = Inr h))"
    and "err = fst (Store_Store (w_cache w) (go_slice 40 56 raw) raw (class_ttl F (w_ttls w) raw) (stg s))"
  shows "ctr framesReceived s' + ctr (framesDropped ''decode_error'') s' = ctr framesReceived s + ctr (framesDropped ''decode_error'') s + 1
    \<and> ctr framesCached s' = ctr framesCached s + (if stored \<and> err = None then 1 else 0)
    \<and> ctr (cacheStored src) s' = ctr (cacheStored src) s + (if stored \<and> err = None then 1 else 0)
    \<and> ctr cacheErrors s' = ctr cacheErrors s + (if stored \<and> err \<noteq> None then 1 else 0)"
proof (cases "56 \<le> length raw \<and> (\<exists>h. class_decode F raw = Inr h)")
  case False
  have "s' = decode_error s"
  proof (cases "length raw < 56")
    case True
    then show ?thesis using processFrame_short [OF assms(1), of raw w src s] assms(5) by simp
  next
    case long: False
    with False obtain e where "class_decode F raw = Inl e" by (cases "class_decode F raw") auto
    with long processFrame_class [OF assms(2), of raw w src s] assms(5) show ?thesis by simp
  qed
  with False assms(6) show ?thesis by (auto simp: decode_error_def recorder_defs assms(3))
next
  case True
  then obtain f where f: "class_decode F raw = Inr f" by blast
  note h = class_decode_offsets [OF assms(1) f]
  obtain e st where so: "Store_Store (w_cache w) (go_slice 40 56 raw) raw (class_ttl F (w_ttls w) raw) (stg s) = (e, st)" by force
  have tab: "source_table_ok (rec_FrameReceived R)"
    using assms(4) by (simp add: source_table_ok_def rec_FrameReceived_def add_metric_def)
  have s': "s' = (if Uint64 (go_slice 48 56 raw) = 0 then io_rec rec_FrameReceived s
      else if e \<noteq> None then io_rec rec_CacheError ((io_rec rec_FrameReceived s)\<lparr>stg := st\<rparr>)
      else io_rec (rec_FrameCached src) ((io_rec rec_FrameReceived s)\<lparr>stg := st\<rparr>))"
    using True f so processFrame_class [OF assms(2), of raw w src s] assms(5) store_stamped_key [OF h] h
    by (simp add: store_stamped_def hdr_at_offsets_def)
  show ?thesis
    using True f so assms(6,7) rec_FrameCached_counts [OF tab]
    by (auto simp: s' ctr_def assms(3) rec_FrameReceived_def rec_CacheError_def)
qed

text \<open>
  \<^verbatim>\<open>Partition\<close> deals the groups out.  Every group goes to exactly one worker, no worker has two groups more than another, and there are
  as many workers as asked for, but at least one and at most one per group.
\<close>

lemma partition_deals:
  "mset (concat (Partition groups n)) = mset groups
   \<and> int (length (Partition groups n)) = max 1 (min n (int (length groups)))
   \<and> (\<forall>i j. i < length (Partition groups n) \<and> j < length (Partition groups n)
        \<longrightarrow> length (Partition groups n ! i) \<le> length (Partition groups n ! j) + 1)"
proof (cases "min n (int (length groups)) < 1")
  case True
  then show ?thesis by (auto simp: Partition_def Let_def split: if_splits)
next
  case False
  then have m: "0 < nat (min n (int (length groups)))" "int (nat (min n (int (length groups)))) = min n (int (length groups))"
    by linarith+
  show ?thesis
    using m spread_mset [OF m(1), of groups] spread_length [OF m(1), of _ groups] False
    by (auto simp: Partition_spread [OF False] split: if_splits)
qed

text \<open>
  C36: Joining is all or nothing at start and persistent afterwards.  The first pass succeeds exactly if every group has a valid
  address and every join is accepted, and has then asked for every group with its own source list; each re-assert pass asks for every
  group again, whatever the individual joins return, and reports no error, so a membership lost underneath the socket is asked for again at
  every tick.
\<close>

theorem joins_complete:
  assumes "list_all group_ok (w_groups w)"
  shows "(fst (joinAll join w True) = None \<longleftrightarrow> list_all (\<lambda>g. case_prod join (want_join (w_sources w) g) = None) (w_groups w))
    \<and> (fst (joinAll join w True) = None \<longrightarrow> snd (joinAll join w True) = map (want_join (w_sources w)) (w_groups w))
    \<and> joinAll join w False = (None, map (want_join (w_sources w)) (w_groups w))
    \<and> reassertJoins joins w n = concat (replicate n (map (want_join (w_sources w)) (w_groups w)))"
proof -
  have again: "joinAll j w False = (None, map (want_join (w_sources w)) (w_groups w))" for j
    using assms by (simp add: joinAll_def join_groups_again)
  have "reassertJoins joins w n = concat (replicate n (map (want_join (w_sources w)) (w_groups w)))"
    by (induction n) (simp_all add: again concat_replicate_trivial flip: replicate_append_same)
  with assms again show ?thesis by (auto simp: joinAll_def join_groups_first list_all_iff)
qed

section \<open>Witnesses\<close>

text \<open>A worker with the map backend, and one group with a source of its own.\<close>

definition ex_worker :: "(bytes, bytes) amap Worker" where
  "ex_worker = SetGroupSources [(Addr6 (replicate 15 0 @ [2]), [Addr6 (replicate 15 0 @ [9])])]
     (ingress_New (Some ''eth0'') 9001 [\<lparr>uIP = replicate 15 0 @ [1], uPort = 9001\<rparr>, \<lparr>uIP = replicate 15 0 @ [2], uPort = 9001\<rparr>]
        ex_cache ex_ttls)"

theorem ingress_stores_witness:
  "stg (processFrame ref_frame_pkg ex_worker (ex_frame 1 2 4) ''fd00::1'' ex_io)
     = [(ascii ''bre:frame:'' @ PutUint64 1 @ PutUint64 2, ex_frame 1 2 4)]"
proof -
  have "length (ex_frame 1 2 4) = 104" "Uint64 (go_slice 48 56 (ex_frame 1 2 4)) \<noteq> 0"
    "class_decode ref_frame_pkg (ex_frame 1 2 4) = Inr \<lparr>HashKey = 1, SeqNum = 2\<rparr>"
    by code_simp+
  moreover have "snd (Store_Store (w_cache ex_worker) (go_slice 40 56 (ex_frame 1 2 4)) (ex_frame 1 2 4) 61 (stg ex_io))
      = [(ascii ''bre:frame:'' @ PutUint64 1 @ PutUint64 2, ex_frame 1 2 4)]"
    and "class_ttl ref_frame_pkg (w_ttls ex_worker) (ex_frame 1 2 4) = 61"
    by code_simp+
  ultimately show ?thesis
    using ingress_stores [OF ref_frame_pkg_ok, of ex_worker "ex_frame 1 2 4" "''fd00::1''" ex_io] by simp
qed

theorem ingress_counts_witness:
  "ctr framesCached (processFrame ref_frame_pkg ex_worker (ex_frame 1 2 9) ''fd00::1'' ex_io) = 1"
proof -
  have R: "rcd ex_io = Some (new_Recorder 1)" and t: "source_table_ok (new_Recorder 1)"
    by (simp_all add: ex_io_def source_table_ok_def new_Recorder_def)
  have "ctr framesCached ex_io = 0" by (simp add: ctr_def R new_Recorder_def)
  moreover have "length (ex_frame 1 2 9) = 104" "Uint64 (go_slice 48 56 (ex_frame 1 2 9)) \<noteq> 0"
    "class_decode ref_frame_pkg (ex_frame 1 2 9) = Inr \<lparr>HashKey = 1, SeqNum = 2\<rparr>"
    "fst (Store_Store (w_cache ex_worker) (go_slice 40 56 (ex_frame 1 2 9)) (ex_frame 1 2 9)
       (class_ttl ref_frame_pkg (w_ttls ex_worker) (ex_frame 1 2 9)) (stg ex_io)) = None"
    by code_simp+
  ultimately show ?thesis
    using ingress_counts [OF ref_frame_pkg_ok R t refl refl refl, of ex_worker "ex_frame 1 2 9" "''fd00::1''"] by simp
qed

theorem joins_complete_witness:
  "reassertJoins (\<lambda>i ga srcs. Some (Errorf ''refused'')) ex_worker 1
     = [(Addr6 (replicate 15 0 @ [1]), []), (Addr6 (replicate 15 0 @ [2]), [Addr6 (replicate 15 0 @ [9])])]"
proof -
  have "list_all group_ok (w_groups ex_worker)"
    and "map (want_join (w_sources ex_worker)) (w_groups ex_worker)
      = [(Addr6 (replicate 15 0 @ [1]), []), (Addr6 (replicate 15 0 @ [2]), [Addr6 (replicate 15 0 @ [9])])]"
    by code_simp+
  then show ?thesis
    using joins_complete [of ex_worker _ "\<lambda>i ga srcs. Some (Errorf ''refused'')" 1] by (simp del: reassertJoins.simps)
qed

end
