(* ===== verification/Ingress_Sockets.thy ===== *)
theory Ingress_Sockets
  imports Ingress_Worker
begin

text \<open>
  The sockets of the ingress worker: \<^verbatim>\<open>openRawSocket\<close>, \<^verbatim>\<open>openTeeSocket\<close>, \<^verbatim>\<open>Run\<close> and \<^verbatim>\<open>RunTee\<close> of \<^verbatim>\<open>src/ingress/ingress.go\<close>
  with the platform files \<^verbatim>\<open>cobind_*.go\<close> and \<^verbatim>\<open>mcastall_*.go\<close>.  System calls are recorded in order in a trace; the
  environment decides the outcome of each call from its position and its arguments.  The receive loop between startup
  and return is an argument here and is the subject of \<open>Ingress_Pipeline\<close>.
\<close>

section \<open>System calls\<close>

datatype platform = Linux | FreeBSD | OtherOS

datatype sockopt = SO_REUSEADDR | SO_REUSEPORT | SO_RCVBUF | IPV6_MULTICAST_ALL | SO_RCVTIMEO

datatype syscall =
    sys_Socket
  | sys_SetsockoptInt sockopt int
  | sys_Bind bytes int
  | sys_Close

type_synonym sys_env = "nat \<Rightarrow> syscall \<Rightarrow> string option"

definition sys :: "sys_env \<Rightarrow> syscall \<Rightarrow> syscall list \<Rightarrow> string option \<times> syscall list" where
  "sys env c t = (env (length t) c, t @ [c])"

section \<open>Opening\<close>

definition coBindOpts :: "platform \<Rightarrow> sys_env \<Rightarrow> syscall list \<Rightarrow> string option \<times> syscall list" where
  "coBindOpts os env t = (if os = FreeBSD then sys env (sys_SetsockoptInt SO_REUSEPORT 1) t else (None, t))"

definition disableMulticastAll :: "platform \<Rightarrow> sys_env \<Rightarrow> syscall list \<Rightarrow> syscall list" where
  "disableMulticastAll os env t = (if os = Linux then snd (sys env (sys_SetsockoptInt IPV6_MULTICAST_ALL 0) t) else t)"

definition closing :: "sys_env \<Rightarrow> string \<Rightarrow> syscall list \<Rightarrow> go_error option \<times> syscall list" where
  "closing env what t = (Some (Errorf what), snd (sys env sys_Close t))"

definition openTeeSocket :: "sys_env \<Rightarrow> bytes \<Rightarrow> int \<Rightarrow> int \<Rightarrow> syscall list \<Rightarrow> go_error option \<times> syscall list" where
  "openTeeSocket env addr port recvBuf t =
    (let (e, t1) = sys env sys_Socket t in
     if e \<noteq> None then (Some (Errorf ''socket''), t1)
     else
       (let t2 = snd (sys env (sys_SetsockoptInt SO_RCVBUF recvBuf) t1);
            (e, t3) = sys env (sys_Bind addr port) t2
        in if e \<noteq> None then closing env ''bind'' t3 else (None, t3)))"

definition openRawSocket :: "platform \<Rightarrow> sys_env \<Rightarrow> 'b Worker \<Rightarrow> syscall list \<Rightarrow> go_error option \<times> syscall list" where
  "openRawSocket os env w t =
    (let (e, t1) = sys env sys_Socket t in
     if e \<noteq> None then (Some (Errorf ''socket''), t1)
     else
       (let (e, t2) = sys env (sys_SetsockoptInt SO_REUSEADDR 1) t1 in
        if e \<noteq> None then closing env ''SO_REUSEADDR'' t2
        else
          (let (e, t3) = coBindOpts os env t2 in
           if e \<noteq> None then closing env ''co-bind opts'' t3
           else
             (let t4 = snd (sys env (sys_SetsockoptInt SO_RCVBUF (recvBufBytes w)) t3);
                  t5 = disableMulticastAll os env t4;
                  (e, t6) = sys env (sys_Bind IPv6unspecified (w_port w)) t5
              in if e \<noteq> None then closing env ''bind [::]'' t6 else (None, t6)))))"

section \<open>Run and RunTee\<close>

text \<open>
  \<open>recv\<close> is the effect of \<^verbatim>\<open>receive\<close> until it returns.  The receive timeout is set best effort; closing the socket
  when the context ends belongs to a goroutine that outlives the call and is not part of the trace.
\<close>

definition Worker_Run :: "platform \<Rightarrow> sys_env \<Rightarrow> (Addr \<Rightarrow> Addr list \<Rightarrow> go_error option)
    \<Rightarrow> (('b, 'z) io_scheme \<Rightarrow> ('b, 'z) io_scheme) \<Rightarrow> 'b Worker \<Rightarrow> ('b, 'z) io_scheme
    \<Rightarrow> go_error option \<times> syscall list \<times> ('b, 'z) io_scheme" where
  "Worker_Run os env join recv w s =
    (if w_iface w = None then (Some (Errorf ''ingress: no interface''), [], s)
     else
       (let (e, t) = openRawSocket os env w [] in
        if e \<noteq> None then (Some (Errorf ''ingress: open socket''), t, s)
        else
          (case fst (joinAll join w True) of
             Some e \<Rightarrow> (Some e, snd (sys env sys_Close t), s)
           | None \<Rightarrow>
               (let s1 = io_rec rec_WorkerReady s;
                    t1 = snd (sys env (sys_SetsockoptInt SO_RCVTIMEO 200) t)
                in (None, t1, io_rec rec_WorkerDone (recv s1))))))"

definition Worker_RunTee :: "sys_env \<Rightarrow> bytes \<Rightarrow> int \<Rightarrow> (('b, 'z) io_scheme \<Rightarrow> ('b, 'z) io_scheme) \<Rightarrow> 'b Worker
    \<Rightarrow> ('b, 'z) io_scheme \<Rightarrow> go_error option \<times> syscall list \<times> ('b, 'z) io_scheme" where
  "Worker_RunTee env addr port recv w s =
    (let (e, t) = openTeeSocket env addr port (recvBufBytes w) [] in
     if e \<noteq> None then (Some (Errorf ''ingress tee''), t, s)
     else
       (let s1 = io_rec rec_WorkerReady s;
            t1 = snd (sys env (sys_SetsockoptInt SO_RCVTIMEO 200) t)
        in (None, t1, io_rec rec_WorkerDone (recv s1))))"

section \<open>Lemmas\<close>

text \<open>Descriptors left open by a trace: successful \<open>sys_Socket\<close> calls minus closes.\<close>

fun open_fds :: "sys_env \<Rightarrow> nat \<Rightarrow> syscall list \<Rightarrow> int" where
  "open_fds env n [] = 0"
| "open_fds env n (c # cs) =
    (if c = sys_Socket \<and> env n c = None then 1 else if c = sys_Close then -1 else 0) + open_fds env (Suc n) cs"

text \<open>The calls of a raw socket that opens, in order.\<close>

definition raw_calls :: "platform \<Rightarrow> 'b Worker \<Rightarrow> syscall list" where
  "raw_calls os w =
    [sys_Socket, sys_SetsockoptInt SO_REUSEADDR 1] @ (if os = FreeBSD then [sys_SetsockoptInt SO_REUSEPORT 1] else [])
     @ [sys_SetsockoptInt SO_RCVBUF (recvBufBytes w)] @ (if os = Linux then [sys_SetsockoptInt IPV6_MULTICAST_ALL 0] else [])
     @ [sys_Bind IPv6unspecified (w_port w)]"

lemma openRawSocket_outcome:
  assumes "openRawSocket os env w [] = (e, t)"
  shows "e = None \<Longrightarrow> t = raw_calls os w \<and> open_fds env 0 t = 1"
    and "e \<noteq> None \<Longrightarrow> open_fds env 0 t = 0"
  using assms
  by (cases os; auto simp: openRawSocket_def sys_def coBindOpts_def disableMulticastAll_def closing_def raw_calls_def
      Let_def split: if_splits)+

lemma openTeeSocket_outcome:
  assumes "openTeeSocket env addr port buf [] = (e, t)"
  shows "e = None \<Longrightarrow> t = [sys_Socket, sys_SetsockoptInt SO_RCVBUF buf, sys_Bind addr port] \<and> open_fds env 0 t = 1"
    and "e \<noteq> None \<Longrightarrow> open_fds env 0 t = 0"
  using assms by (auto simp: openTeeSocket_def sys_def closing_def Let_def split: if_splits)

lemma open_fds_append: "open_fds env n (t @ u) = open_fds env n t + open_fds env (n + length t) u"
  by (induction t arbitrary: n) auto

section \<open>Properties\<close>

text \<open>
  C35: A worker that cannot start leaks nothing and never counts as ready.  If \<^verbatim>\<open>Run\<close> returns an error, every descriptor it
  opened is closed again and the recorder is untouched.  Otherwise all groups were joined, one descriptor is open with
  the options of the platform (address reuse always, port reuse only on FreeBSD, membership scoping only on Linux), the
  receive loop ran with the worker counted ready, and the worker is no longer counted when \<^verbatim>\<open>Run\<close> returns.
\<close>

theorem run_startup:
  assumes "Worker_Run os env join recv w s = (e, t, s')"
  shows "(e \<noteq> None \<longrightarrow> open_fds env 0 t = 0 \<and> s' = s)
    \<and> (e = None \<longrightarrow> open_fds env 0 t = 1
        \<and> t = raw_calls os w @ [sys_SetsockoptInt SO_RCVTIMEO 200]
        \<and> (\<forall>g \<in> set (w_groups w). case_prod join (want_join (w_sources w) g) = None)
        \<and> s' = io_rec rec_WorkerDone (recv (io_rec rec_WorkerReady s)))"
proof -
  obtain e1 t1 where op: "openRawSocket os env w [] = (e1, t1)" by force
  note o = openRawSocket_outcome [OF op]
  show ?thesis
  proof (cases "w_iface w = None \<or> e1 \<noteq> None")
    case True
    with assms o(2) show ?thesis by (auto simp: Worker_Run_def op split: if_splits)
  next
    case False
    show ?thesis
    proof (cases "fst (joinAll join w True)")
      case None
      then have "\<forall>g \<in> set (w_groups w). case_prod join (want_join (w_sources w) g) = None"
        by (auto simp: joinAll_def join_groups_first list_all_iff)
      with None False assms o(1) show ?thesis by (auto simp: Worker_Run_def op sys_def Let_def open_fds_append)
    next
      case (Some e2)
      with False assms o(1) show ?thesis by (auto simp: Worker_Run_def op sys_def open_fds_append)
    qed
  qed
qed

theorem run_startup_witness:
  "fst (snd (Worker_Run Linux (\<lambda>n c. if c = sys_Bind IPv6unspecified 9001 then Some ''in use'' else None)
      (\<lambda>_ _. None) id ex_worker ex_io)) \<noteq> []
   \<and> open_fds (\<lambda>n c. if c = sys_Bind IPv6unspecified 9001 then Some ''in use'' else None) 0
      (fst (snd (Worker_Run Linux (\<lambda>n c. if c = sys_Bind IPv6unspecified 9001 then Some ''in use'' else None)
      (\<lambda>_ _. None) id ex_worker ex_io))) = 0"
proof -
  let ?env = "\<lambda>(n :: nat) c. if c = sys_Bind IPv6unspecified 9001 then Some ''in use'' else None"
  obtain e t s' where r: "Worker_Run Linux ?env (\<lambda>_ _. None) id ex_worker ex_io = (e, t, s')"
    by (cases "Worker_Run Linux ?env (\<lambda>_ _. None) id ex_worker ex_io")
  have "e \<noteq> None \<and> t \<noteq> []"
    using r by (auto simp: Worker_Run_def ex_worker_def SetGroupSources_def ingress_New_def openRawSocket_def sys_def
        coBindOpts_def disableMulticastAll_def closing_def)
  with run_startup [OF r] r show ?thesis by simp
qed

end
