(* ===== verification/Ingress_Pipeline.thy ===== *)
theory Ingress_Pipeline
  imports Ingress_Worker "HOL-Library.Sublist"
begin

text \<open>
  The receive pipeline of \<^verbatim>\<open>src/ingress/pipeline.go\<close> with the readers of \<^verbatim>\<open>recvbatch_linux.go\<close> and \<^verbatim>\<open>recvbatch_other.go\<close>: one
  receiver drains the socket into reusable slots and hands them over bounded queues to processors, which return them to
  a free list.  Slots are addresses into a store, so that reuse of a slot while someone still reads it would show.
  The goroutines are a step relation; its atomic steps are the channel operations and one datagram's handling.
\<close>

section \<open>Sizes and slots\<close>

definition slotSize :: nat where "slotSize = 64 * 1024"
definition recvBatchSize :: nat where "recvBatchSize = 64"
definition DefaultQueueDepth :: int where "DefaultQueueDepth = 1024"
definition DefaultProcs :: int where "DefaultProcs = 4"

text \<open>\<open>sl_data\<close> is \<^verbatim>\<open>buf[:n]\<close>, all that is read of a slot's buffer.\<close>

record slot =
  sl_data :: bytes
  sl_from :: bytes
  sl_v6 :: bool
  sl_trunc :: bool

definition SetPipeline :: "int \<Rightarrow> int \<Rightarrow> 'b Worker \<Rightarrow> 'b Worker" where
  "SetPipeline depth procs w = w\<lparr>w_queueDepth := depth, w_procs := procs\<rparr>"

definition pipelineSize :: "'b Worker \<Rightarrow> int \<times> int" where
  "pipelineSize w =
    (let depth = w_queueDepth w; procs = w_procs w;
         depth = (if depth < 1 then DefaultQueueDepth else depth);
         procs = (if procs < 1 then DefaultProcs else procs)
     in (depth, procs))"

definition dropped :: "string \<Rightarrow> ('b, 'z) io_scheme \<Rightarrow> ('b, 'z) io_scheme" where
  "dropped reason s = io_rec (rec_FrameDropped reason) s"

section \<open>Reading datagrams\<close>

text \<open>A datagram as the kernel delivers it: its bytes, and the family and address of the sender's socket address.\<close>

record rmsg =
  rm_data :: bytes
  rm_v6 :: bool
  rm_addr :: bytes

definition read_slot :: "rmsg \<Rightarrow> slot" where
  "read_slot m = \<lparr>sl_data = take slotSize (rm_data m), sl_from = rm_addr m, sl_v6 = rm_v6 m,
     sl_trunc = (slotSize < length (rm_data m))\<rparr>"

definition read_slot_other :: "rmsg \<Rightarrow> slot \<Rightarrow> slot" where
  "read_slot_other m s = \<lparr>sl_data = take slotSize (rm_data m), sl_from = (if rm_v6 m then rm_addr m else sl_from s),
     sl_v6 = rm_v6 m, sl_trunc = False\<rparr>"

text \<open>\<^verbatim>\<open>read(slots)\<close> on Linux fills the first slots of the batch, at most as many as there are; elsewhere it fills one.\<close>

fun batch_read :: "nat list \<Rightarrow> rmsg list \<Rightarrow> (nat \<Rightarrow> slot) \<Rightarrow> (nat \<Rightarrow> slot)" where
  "batch_read (x # xs) (m # ms) st = batch_read xs ms (st(x := read_slot m))"
| "batch_read xs ms st = st"

fun batch_read_other :: "nat list \<Rightarrow> rmsg \<Rightarrow> (nat \<Rightarrow> slot) \<Rightarrow> (nat \<Rightarrow> slot)" where
  "batch_read_other (x # xs) m st = st(x := read_slot_other m (st x))"
| "batch_read_other [] m st = st"

section \<open>Choosing a processor\<close>

definition shardOf :: "teewire \<Rightarrow> bytes \<Rightarrow> bool \<Rightarrow> u64" where
  "shardOf T pkt tee =
    (if tee \<and> IsEncap T pkt \<and> length pkt < teewire_HeaderSize then 0
     else
       (let pkt = (if tee \<and> IsEncap T pkt then drop teewire_HeaderSize pkt else pkt) in
        if length pkt < 56 then 0
        else
          (let h = Uint64 (go_slice 40 48 pkt) XOR (Uint64 (go_slice 48 56 pkt) * 0x9E3779B97F4A7C15)
           in h XOR drop_bit 32 h)))"

definition queue_of :: "teewire \<Rightarrow> bool \<Rightarrow> nat \<Rightarrow> slot \<Rightarrow> nat" where
  "queue_of T tee procs s = (if 1 < procs then unat (shardOf T (sl_data s) tee mod of_nat procs) else 0)"

section \<open>Processing a datagram\<close>

record processor =
  pr_lastSrc :: bytes
  pr_src :: string

definition new_processor :: processor where
  "new_processor = \<lparr>pr_lastSrc = replicate 16 0, pr_src = []\<rparr>"

definition label :: "bytes \<Rightarrow> processor \<Rightarrow> string \<times> processor" where
  "label a p =
    (let p = (if pr_src p = [] \<or> a \<noteq> pr_lastSrc p then p\<lparr>pr_lastSrc := a, pr_src := Addr_String (Addr6 a)\<rparr> else p)
     in (pr_src p, p))"

definition handle :: "frame_pkg \<Rightarrow> teewire \<Rightarrow> 'b Worker \<Rightarrow> bool \<Rightarrow> slot \<Rightarrow> processor \<Rightarrow> ('b, 'z) io_scheme
    \<Rightarrow> processor \<times> ('b, 'z) io_scheme" where
  "handle F T w tee s p io =
    (let pkt = sl_data s in
     if \<not> tee then
       (if sl_v6 s then (let (src, p) = label (sl_from s) p in (p, processFrame F w pkt src io))
        else (p, processFrame F w pkt [] io))
     else if IsEncap T pkt then
       (case Decap T pkt of
          Inl _ \<Rightarrow> (p, dropped ''tee_decap_error'' io)
        | Inr (a, inner) \<Rightarrow>
            (let io1 = io_rec (rec_TeeDatagram ''encap'') io;
                 (src, p) = label (As16 a) p
             in (p, processFrame F w inner src io1)))
     else
       (let (src, p) = (if sl_v6 s then label (sl_from s) p else ([], p));
            io1 = io_rec (rec_TeeDatagram ''raw'') io
        in (p, processFrame F w pkt src io1)))"

section \<open>The goroutines\<close>

text \<open>
  Where the receiver is: reading, at datagram \<open>i\<close> of \<open>n\<close>, waiting for room in a full queue, waiting for a free slot to put
  in place \<open>i\<close> of its batch, or returned.  A processor waits on its queue, holds a slot, or is about to return one.
\<close>

datatype rx = Reading | Handling nat nat | WaitRoom nat nat | Refill nat nat | Stopped

datatype phase = Idle | Holding nat | Returning nat

text \<open>
  \<open>p_acc\<close> and \<open>p_done\<close> are not part of the program: the datagrams put on a queue so far, and those handled, in order.
\<close>

record 'b pipe =
  p_slots :: "nat \<Rightarrow> slot"
  p_free :: "nat list"
  p_batch :: "nat list"
  p_rx :: rx
  p_queues :: "nat list list"
  p_work :: "phase list"
  p_procs :: "processor list"
  p_io :: "'b io"
  p_acc :: "slot list"
  p_done :: "slot list"

definition nprocs :: "'b Worker \<Rightarrow> nat" where "nprocs w = nat (snd (pipelineSize w))"

definition per :: "'b Worker \<Rightarrow> nat" where
  "per w = (case pipelineSize w of (depth, procs) \<Rightarrow> nat ((depth + procs - 1) div procs))"

definition slots_total :: "'b Worker \<Rightarrow> nat" where "slots_total w = per w * nprocs w + nprocs w + recvBatchSize"

text \<open>All slots go on the free list, and the receiver takes its batch from it.\<close>

definition receive_init :: "'b Worker \<Rightarrow> 'b io \<Rightarrow> 'b pipe" where
  "receive_init w io =
    \<lparr>p_slots = (\<lambda>_. \<lparr>sl_data = [], sl_from = replicate 16 0, sl_v6 = False, sl_trunc = False\<rparr>),
     p_free = drop recvBatchSize [0..<slots_total w], p_batch = take recvBatchSize [0..<slots_total w], p_rx = Reading,
     p_queues = replicate (nprocs w) [], p_work = replicate (nprocs w) Idle,
     p_procs = replicate (nprocs w) new_processor, p_io = io, p_acc = [], p_done = []\<rparr>"

text \<open>Handing the slot at place \<open>i\<close> of the batch to queue \<open>k\<close>; the place must be refilled next.\<close>

definition push :: "nat \<Rightarrow> nat \<Rightarrow> nat \<Rightarrow> 'b pipe \<Rightarrow> 'b pipe" where
  "push k i n p =
    (let x = p_batch p ! i in
     p\<lparr>p_queues := (p_queues p)[k := p_queues p ! k @ [x]], p_rx := Refill i n, p_acc := p_acc p @ [p_slots p x]\<rparr>)"

inductive receive_step :: "frame_pkg \<Rightarrow> teewire \<Rightarrow> 'b Worker \<Rightarrow> bool \<Rightarrow> 'b pipe \<Rightarrow> 'b pipe \<Rightarrow> bool"
  for F :: frame_pkg and T :: teewire and w :: "'b Worker" and tee :: bool where
  read: "p_rx p = Reading \<Longrightarrow> length ms \<le> length (p_batch p) \<Longrightarrow>
    receive_step F T w tee p (p\<lparr>p_slots := batch_read (p_batch p) ms (p_slots p), p_rx := Handling 0 (length ms)\<rparr>)"
| read_other: "p_rx p = Reading \<Longrightarrow>
    receive_step F T w tee p (p\<lparr>p_slots := batch_read_other (p_batch p) m (p_slots p), p_rx := Handling 0 1\<rparr>)"
| stop: "p_rx p = Reading \<Longrightarrow> receive_step F T w tee p (p\<lparr>p_rx := Stopped\<rparr>)"
| batch_done: "p_rx p = Handling n n \<Longrightarrow> receive_step F T w tee p (p\<lparr>p_rx := Reading\<rparr>)"
| truncated: "p_rx p = Handling i n \<Longrightarrow> i < n \<Longrightarrow> s = p_slots p (p_batch p ! i) \<Longrightarrow> sl_trunc s \<Longrightarrow>
    receive_step F T w tee p (p\<lparr>p_io := dropped ''truncated'' (p_io p), p_rx := Handling (Suc i) n\<rparr>)"
| empty: "p_rx p = Handling i n \<Longrightarrow> i < n \<Longrightarrow> s = p_slots p (p_batch p ! i) \<Longrightarrow> \<not> sl_trunc s \<Longrightarrow> sl_data s = [] \<Longrightarrow>
    receive_step F T w tee p (p\<lparr>p_rx := Handling (Suc i) n\<rparr>)"
| send: "p_rx p = Handling i n \<Longrightarrow> i < n \<Longrightarrow> s = p_slots p (p_batch p ! i) \<Longrightarrow> \<not> sl_trunc s \<Longrightarrow> sl_data s \<noteq> [] \<Longrightarrow>
    k = queue_of T tee (nprocs w) s \<Longrightarrow> length (p_queues p ! k) < per w \<Longrightarrow>
    receive_step F T w tee p (push k i n p)"
| full: "p_rx p = Handling i n \<Longrightarrow> i < n \<Longrightarrow> s = p_slots p (p_batch p ! i) \<Longrightarrow> \<not> sl_trunc s \<Longrightarrow> sl_data s \<noteq> [] \<Longrightarrow>
    k = queue_of T tee (nprocs w) s \<Longrightarrow> \<not> length (p_queues p ! k) < per w \<Longrightarrow>
    receive_step F T w tee p (p\<lparr>p_rx := WaitRoom i n\<rparr>)"
| wait_send: "p_rx p = WaitRoom i n \<Longrightarrow> k = queue_of T tee (nprocs w) (p_slots p (p_batch p ! i)) \<Longrightarrow>
    length (p_queues p ! k) < per w \<Longrightarrow> receive_step F T w tee p (push k i n p)"
| wait_timeout: "p_rx p = WaitRoom i n \<Longrightarrow>
    receive_step F T w tee p (p\<lparr>p_io := dropped ''queue_full'' (p_io p), p_rx := Handling (Suc i) n\<rparr>)"
| wait_stop: "p_rx p = WaitRoom i n \<Longrightarrow> receive_step F T w tee p (p\<lparr>p_rx := Stopped\<rparr>)"
| refill: "p_rx p = Refill i n \<Longrightarrow> p_free p = x # xs \<Longrightarrow>
    receive_step F T w tee p (p\<lparr>p_batch := (p_batch p)[i := x], p_free := xs, p_rx := Handling (Suc i) n\<rparr>)"
| proc_take: "j < nprocs w \<Longrightarrow> p_work p ! j = Idle \<Longrightarrow> p_queues p ! j = x # xs \<Longrightarrow>
    receive_step F T w tee p (p\<lparr>p_queues := (p_queues p)[j := xs], p_work := (p_work p)[j := Holding x]\<rparr>)"
| proc_handle: "j < nprocs w \<Longrightarrow> p_work p ! j = Holding x \<Longrightarrow> handle F T w tee (p_slots p x) (p_procs p ! j) (p_io p) = (pr, io) \<Longrightarrow>
    receive_step F T w tee p (p\<lparr>p_work := (p_work p)[j := Returning x], p_procs := (p_procs p)[j := pr], p_io := io,
      p_done := p_done p @ [p_slots p x]\<rparr>)"
| proc_return: "j < nprocs w \<Longrightarrow> p_work p ! j = Returning x \<Longrightarrow> length (p_free p) < slots_total w \<Longrightarrow>
    receive_step F T w tee p (p\<lparr>p_work := (p_work p)[j := Idle], p_free := p_free p @ [x]\<rparr>)"

inductive receives :: "frame_pkg \<Rightarrow> teewire \<Rightarrow> 'b Worker \<Rightarrow> bool \<Rightarrow> 'b io \<Rightarrow> 'b pipe \<Rightarrow> bool"
  for F :: frame_pkg and T :: teewire and w :: "'b Worker" and tee :: bool and io :: "'b io" where
  start: "receives F T w tee io (receive_init w io)"
| step: "receives F T w tee io p \<Longrightarrow> receive_step F T w tee p p' \<Longrightarrow> receives F T w tee io p'"

section \<open>Lemmas: where the slots are\<close>

fun held :: "phase \<Rightarrow> nat list" where
  "held Idle = []"
| "held (Holding x) = [x]"
| "held (Returning x) = [x]"

fun batch_held :: "rx \<Rightarrow> nat list \<Rightarrow> nat list" where
  "batch_held (Refill i n) b = take i b @ drop (Suc i) b"
| "batch_held _ b = b"

definition owned :: "'b pipe \<Rightarrow> nat list" where
  "owned p = p_free p @ batch_held (p_rx p) (p_batch p) @ concat (p_queues p) @ concat (map held (p_work p))"

fun rx_ok :: "rx \<Rightarrow> bool" where
  "rx_ok (Handling i n) = (i \<le> n \<and> n \<le> recvBatchSize)"
| "rx_ok (WaitRoom i n) = (i < n \<and> n \<le> recvBatchSize)"
| "rx_ok (Refill i n) = (i < n \<and> n \<le> recvBatchSize)"
| "rx_ok _ = True"

definition shape_ok :: "'b Worker \<Rightarrow> 'b pipe \<Rightarrow> bool" where
  "shape_ok w p \<longleftrightarrow> length (p_batch p) = recvBatchSize \<and> length (p_queues p) = nprocs w \<and> length (p_work p) = nprocs w
     \<and> length (p_procs p) = nprocs w \<and> rx_ok (p_rx p) \<and> (\<forall>q \<in> set (p_queues p). length q \<le> per w)"

definition slots_ok :: "'b Worker \<Rightarrow> 'b pipe \<Rightarrow> bool" where
  "slots_ok w p \<longleftrightarrow> shape_ok w p \<and> mset (owned p) = mset [0..<slots_total w]"

lemma batch_not_empty [simp]: "0 < recvBatchSize" "recvBatchSize \<noteq> 0" "Suc 0 \<le> recvBatchSize" by (simp_all add: recvBatchSize_def)

lemma nprocs_pos: "0 < nprocs w"
  by (simp add: nprocs_def pipelineSize_def Let_def DefaultProcs_def)

lemma queue_of_less:
  assumes "0 < procs" and "procs < 2 ^ 64"
  shows "queue_of T tee procs s < procs"
proof -
  have "unat (of_nat procs :: u64) = procs" using assms(2) by (simp add: unat_of_nat)
  with assms show ?thesis by (simp add: queue_of_def unat_mod)
qed

lemma mset_concat_upd:
  "k < length qs \<Longrightarrow> mset (concat (qs[k := q])) + mset (qs ! k) = mset (concat qs) + mset q"
proof (induction qs arbitrary: k)
  case (Cons a qs)
  then show ?case by (cases k) (auto simp: union_assoc)
qed simp

lemma mset_without:
  assumes "i < length b"
  shows "mset b = add_mset (b ! i) (mset (take i b @ drop (Suc i) b))"
    and "mset (b[i := x]) = add_mset x (mset (take i b @ drop (Suc i) b))"
proof -
  have "b = take i b @ b ! i # drop (Suc i) b" using assms by (rule id_take_nth_drop)
  then have "mset b = mset (take i b @ b ! i # drop (Suc i) b)" by simp
  then show "mset b = add_mset (b ! i) (mset (take i b @ drop (Suc i) b))" by simp
qed (simp add: assms upd_conv_take_nth_drop)

lemma length_concat_le: "(\<And>q. q \<in> set qs \<Longrightarrow> length q \<le> m) \<Longrightarrow> length (concat qs) \<le> m * length qs"
  by (induction qs) (auto simp: add_mono)

lemma length_held: "length (concat (map held ws)) \<le> length ws"
proof (induction ws)
  case (Cons a ws)
  then show ?case by (cases a) auto
qed simp

lemma held_not_Nil: "j < length ws \<Longrightarrow> held (ws ! j) \<noteq> [] \<Longrightarrow> concat (map held ws) \<noteq> []"
  by (auto dest: nth_mem)

lemmas slots_defs = slots_ok_def shape_ok_def owned_def

lemma slots_okD:
  assumes "slots_ok w p"
  shows "length (p_batch p) = recvBatchSize" "length (p_queues p) = nprocs w" "length (p_work p) = nprocs w"
    "length (p_procs p) = nprocs w" "rx_ok (p_rx p)" "\<And>j. j < nprocs w \<Longrightarrow> length (p_queues p ! j) \<le> per w"
    "mset (owned p) = mset [0..<slots_total w]"
  using assms by (auto simp: slots_ok_def shape_ok_def)

lemma slots_ok_init: "slots_ok w (receive_init w io)"
proof -
  have "mset (drop recvBatchSize [0..<slots_total w] @ take recvBatchSize [0..<slots_total w]) = mset [0..<slots_total w]"
    by (metis append_take_drop_id mset_append union_commute)
  then show ?thesis by (simp add: slots_defs receive_init_def) (simp add: slots_total_def)
qed

lemma slots_okI:
  assumes "slots_ok w p" and "shape_ok w p'" and "\<And>a. count (mset (owned p')) a = count (mset (owned p)) a"
  shows "slots_ok w p'"
  using assms multiset_eqI [of "mset (owned p')" "mset (owned p)"] by (simp add: slots_ok_def)

lemma mset_work_upd:
  "j < length ws \<Longrightarrow> mset (concat (map held (ws[j := ph]))) + mset (held (ws ! j)) = mset (concat (map held ws)) + mset (held ph)"
  using mset_concat_upd [of j "map held ws" "held ph"] by (simp add: map_update)

lemma queues_le_upd:
  assumes "slots_ok w p" and "length q' \<le> per w"
  shows "\<forall>q \<in> set ((p_queues p)[k := q']). length q \<le> per w"
  using assms set_update_subset_insert [of "p_queues p" k q'] by (auto simp: slots_ok_def shape_ok_def)

lemma slots_ok_push:
  assumes "slots_ok w p" and "k < nprocs w" and "\<forall>a b. p_rx p \<noteq> Refill a b" and "i < n" and "n \<le> recvBatchSize"
    and "length (p_queues p ! k) < per w"
  shows "slots_ok w (push k i n p)"
proof (rule slots_okI [OF assms(1)])
  note d = slots_okD [OF assms(1)]
  have b: "batch_held (p_rx p) (p_batch p) = p_batch p" using assms(3) by (cases "p_rx p") auto
  show "shape_ok w (push k i n p)"
    using d assms queues_le_upd [OF assms(1), of "p_queues p ! k @ [p_batch p ! i]" k] by (simp add: shape_ok_def push_def Let_def)
  fix a
  show "count (mset (owned (push k i n p))) a = count (mset (owned p)) a"
    using assms d(1,2) mset_without(1) [of i "p_batch p"] mset_concat_update [of k "p_queues p"]
    by (simp add: owned_def push_def b Let_def)
qed

lemma slots_ok_refill:
  assumes "slots_ok w p" and "p_rx p = Refill i n" and "p_free p = x # xs"
  shows "slots_ok w (p\<lparr>p_batch := (p_batch p)[i := x], p_free := xs, p_rx := Handling (Suc i) n\<rparr>)" (is "slots_ok w ?p")
proof (rule slots_okI [OF assms(1)])
  note d = slots_okD [OF assms(1)]
  show "shape_ok w ?p" using d assms(1,2) by (simp add: slots_ok_def shape_ok_def)
  fix a
  show "count (mset (owned ?p)) a = count (mset (owned p)) a"
    using assms d(1,5) mset_without(2) [of i "p_batch p" x] by (simp add: owned_def)
qed

lemma slots_ok_take:
  assumes "slots_ok w p" and "j < nprocs w" and "p_work p ! j = Idle" and "p_queues p ! j = x # xs"
  shows "slots_ok w (p\<lparr>p_queues := (p_queues p)[j := xs], p_work := (p_work p)[j := Holding x]\<rparr>)" (is "slots_ok w ?p")
proof (rule slots_okI [OF assms(1)])
  note d = slots_okD [OF assms(1)]
  show "shape_ok w ?p" using d assms(2,4) d(6) [OF assms(2)] queues_le_upd [OF assms(1), of xs j] by (simp add: shape_ok_def)
  fix a
  show "count (mset (owned ?p)) a = count (mset (owned p)) a"
    using assms d(2,3) arg_cong [OF mset_work_upd [of j "p_work p" "Holding x"], of "\<lambda>M. count M a"]
      arg_cong [OF mset_concat_upd [of j "p_queues p" xs], of "\<lambda>M. count M a"]
    by (cases "x = a") (simp_all add: owned_def)
qed

lemma slots_ok_phase:
  assumes "slots_ok w p" and "j < nprocs w" and "mset (held (p_work p ! j)) = mset (held ph) + mset ys" and "length ps = nprocs w"
  shows "slots_ok w (p\<lparr>p_work := (p_work p)[j := ph], p_free := p_free p @ ys, p_procs := ps, p_io := io, p_done := d\<rparr>)"
    (is "slots_ok w ?p")
proof (rule slots_okI [OF assms(1)])
  note d = slots_okD [OF assms(1)]
  show "shape_ok w ?p" using assms(1,4) by (simp add: slots_ok_def shape_ok_def)
  fix a
  show "count (mset (owned ?p)) a = count (mset (owned p)) a"
    using assms(2,3) d(3) arg_cong [OF mset_work_upd [of j "p_work p" ph], of "\<lambda>M. count M a"] by (simp add: owned_def)
qed

lemma slots_ok_step:
  assumes "receive_step F T w tee p p'" and "slots_ok w p" and "nprocs w < 2 ^ 64"
  shows "slots_ok w p'"
  using assms(1)
proof cases
  case (send i n s k)
  then show ?thesis
    using slots_ok_push [OF assms(2) queue_of_less [OF nprocs_pos assms(3)]] slots_okD(5) [OF assms(2)] by simp
next
  case (wait_send i n k)
  then show ?thesis
    using slots_ok_push [OF assms(2) queue_of_less [OF nprocs_pos assms(3)]] slots_okD(5) [OF assms(2)] by simp
next
  case (refill i n x xs)
  then show ?thesis using slots_ok_refill [OF assms(2)] by simp
next
  case (proc_take j x xs)
  then show ?thesis using slots_ok_take [OF assms(2)] by simp
next
  case (proc_handle j x pr io)
  then show ?thesis
    using slots_ok_phase [OF assms(2), where j = j and ph = "Returning x" and ys = "[]" and ps = "(p_procs p)[j := pr]"
        and io = io and d = "p_done p @ [p_slots p x]"] assms(2)
    by (simp add: slots_ok_def shape_ok_def)
next
  case (proc_return j x)
  then show ?thesis
    using slots_ok_phase [OF assms(2), where j = j and ph = Idle and ys = "[x]" and ps = "p_procs p" and io = "p_io p" and d = "p_done p"] assms(2)
    by (simp add: slots_ok_def shape_ok_def)
qed (use assms(2) in \<open>auto simp: slots_defs\<close>)

lemma receives_slots:
  assumes "receives F T w tee io p" and "nprocs w < 2 ^ 64"
  shows "slots_ok w p"
  using assms(1) by induction (auto intro: slots_ok_init slots_ok_step assms(2))

lemma distinct_owned: "slots_ok w p \<Longrightarrow> distinct (owned p)"
  using slots_okD(7) mset_eq_imp_distinct_iff [of "owned p" "[0..<slots_total w]"] by fastforce

section \<open>Lemmas: order and effect\<close>

text \<open>The flow key of a datagram, behind its envelope on the tee socket.\<close>

definition flow_of :: "teewire \<Rightarrow> bool \<Rightarrow> slot \<Rightarrow> bytes option" where
  "flow_of T tee s =
    (let pkt = (if tee \<and> IsEncap T (sl_data s) then drop teewire_HeaderSize (sl_data s) else sl_data s)
     in if length pkt < 56 then None else Some (go_slice 40 56 pkt))"

lemma shardOf_flow:
  "shardOf T (sl_data s) tee = (case flow_of T tee s of None \<Rightarrow> 0 | Some k \<Rightarrow>
     let h = Uint64 (take 8 k) XOR (Uint64 (drop 8 k) * 0x9E3779B97F4A7C15) in h XOR drop_bit 32 h)"
  by (simp add: shardOf_def flow_of_def Let_def go_slice_def take_drop)

lemma flow_queue: "flow_of T tee s = flow_of T tee s' \<Longrightarrow> queue_of T tee n s = queue_of T tee n s'"
  by (simp add: queue_of_def shardOf_flow)

text \<open>What handling a datagram does to the storage, as a function of the datagram alone.\<close>

definition ingest :: "frame_pkg \<Rightarrow> teewire \<Rightarrow> 'b Worker \<Rightarrow> bool \<Rightarrow> slot \<Rightarrow> 'b \<Rightarrow> 'b" where
  "ingest F T w tee s b =
    (if tee \<and> IsEncap T (sl_data s)
     then (case Decap T (sl_data s) of Inl _ \<Rightarrow> b | Inr (a, raw) \<Rightarrow> store_frame F w raw b)
     else store_frame F w (sl_data s) b)"

lemma handle_stg:
  assumes "frame_offsets F" and "frame_versions F"
  shows "stg (snd (handle F T w tee s p io)) = ingest F T w tee s (stg io)"
  using processFrame_stg [OF assms]
  by (auto simp: handle_def ingest_def dropped_def Let_def split: sum.splits prod.splits)

fun to_handle :: "phase \<Rightarrow> nat list" where
  "to_handle (Holding x) = [x]"
| "to_handle _ = []"

lemma to_handle_held: "set (to_handle ph) \<subseteq> set (held ph)"
  by (cases ph) auto

text \<open>What is queued or about to be handled at processor \<open>j\<close>, in order.\<close>

definition pending :: "'b pipe \<Rightarrow> nat \<Rightarrow> slot list" where
  "pending p j = map (p_slots p) (to_handle (p_work p ! j) @ p_queues p ! j)"

definition fifo_ok :: "teewire \<Rightarrow> 'b Worker \<Rightarrow> bool \<Rightarrow> 'b pipe \<Rightarrow> bool" where
  "fifo_ok T w tee p \<longleftrightarrow> (\<forall>j < nprocs w.
     filter (\<lambda>s. queue_of T tee (nprocs w) s = j) (p_acc p)
       = filter (\<lambda>s. queue_of T tee (nprocs w) s = j) (p_done p) @ pending p j)"

lemma batch_read_outside: "x \<notin> set xs \<Longrightarrow> batch_read xs ms st x = st x"
  by (induction xs ms st rule: batch_read.induct) auto

lemma batch_read_other_outside: "x \<notin> set xs \<Longrightarrow> batch_read_other xs m st x = st x"
  by (cases xs) auto

lemma pending_outside_batch:
  assumes "slots_ok w p" and "p_rx p = Reading" and "j < nprocs w" and "x \<in> set (to_handle (p_work p ! j) @ p_queues p ! j)"
  shows "x \<notin> set (p_batch p)"
proof -
  note d = slots_okD [OF assms(1)]
  have "set (to_handle (p_work p ! j)) \<subseteq> set (concat (map held (p_work p)))"
    using nth_mem [of j "p_work p"] assms(3) d(3) to_handle_held [of "p_work p ! j"]
    by (auto intro!: bexI [of _ "p_work p ! j"])
  moreover have "set (p_queues p ! j) \<subseteq> set (concat (p_queues p))" using assms(3) d(2) by (auto intro!: bexI [of _ "p_queues p ! j"])
  ultimately have "x \<in> set (concat (p_queues p) @ concat (map held (p_work p)))" using assms(4) by auto
  then show ?thesis using distinct_owned [OF assms(1)] assms(2) by (auto simp: owned_def)
qed

lemma fifo_ok_same:
  "fifo_ok T w tee p \<Longrightarrow> p_acc p' = p_acc p \<Longrightarrow> p_done p' = p_done p \<Longrightarrow> (\<And>j. j < nprocs w \<Longrightarrow> pending p' j = pending p j)
   \<Longrightarrow> fifo_ok T w tee p'"
  by (simp add: fifo_ok_def)

lemma fifo_ok_push:
  assumes "fifo_ok T w tee p" and "slots_ok w p" and "k = queue_of T tee (nprocs w) (p_slots p (p_batch p ! i))" and "nprocs w < 2 ^ 64"
  shows "fifo_ok T w tee (push k i n p)"
proof -
  have "k < length (p_queues p)" using assms(3) queue_of_less [OF nprocs_pos assms(4)] slots_okD(2) [OF assms(2)] by simp
  then show ?thesis using assms(1,3) by (simp add: fifo_ok_def push_def pending_def nth_list_update Let_def)
qed

lemma fifo_ok_handle:
  assumes "fifo_ok T w tee p" and "slots_ok w p" and "j < nprocs w" and "p_work p ! j = Holding x"
  shows "fifo_ok T w tee (p\<lparr>p_work := (p_work p)[j := Returning x], p_procs := ps, p_io := io, p_done := p_done p @ [p_slots p x]\<rparr>)"
proof -
  have "p_slots p x \<in> set (pending p j)" using assms(4) by (simp add: pending_def)
  then have "p_slots p x \<in> set (filter (\<lambda>s. queue_of T tee (nprocs w) s = j) (p_acc p))"
    using assms(1,3) unfolding fifo_ok_def by fastforce
  then have "queue_of T tee (nprocs w) (p_slots p x) = j" by simp
  then show ?thesis
    using assms slots_okD(3) [OF assms(2)] by (simp add: fifo_ok_def pending_def nth_list_update)
qed

lemma fifo_ok_step:
  assumes "receive_step F T w tee p p'" and "fifo_ok T w tee p" and "slots_ok w p" and "nprocs w < 2 ^ 64"
  shows "fifo_ok T w tee p'"
  using assms(1)
proof cases
  case (read ms)
  show ?thesis
    by (rule fifo_ok_same [OF assms(2)])
      (use read pending_outside_batch [OF assms(3)] in \<open>auto simp: pending_def batch_read_outside\<close>)
next
  case (read_other m)
  show ?thesis
    by (rule fifo_ok_same [OF assms(2)])
      (use read_other pending_outside_batch [OF assms(3)] in \<open>auto simp: pending_def batch_read_other_outside\<close>)
next
  case (send i n s k)
  then show ?thesis using fifo_ok_push [OF assms(2,3) _ assms(4)] by simp
next
  case (wait_send i n k)
  then show ?thesis using fifo_ok_push [OF assms(2,3) _ assms(4)] by simp
next
  case (proc_handle j x pr io)
  then show ?thesis using fifo_ok_handle [OF assms(2,3)] by simp
next
  case (proc_take j x xs)
  show ?thesis
    by (rule fifo_ok_same [OF assms(2)])
      (use proc_take slots_okD(2,3) [OF assms(3)] in \<open>auto simp: pending_def nth_list_update\<close>)
next
  case (proc_return j x)
  show ?thesis
    by (rule fifo_ok_same [OF assms(2)])
      (use proc_return slots_okD(3) [OF assms(3)] in \<open>auto simp: pending_def nth_list_update\<close>)
qed (rule fifo_ok_same [OF assms(2)]; simp add: pending_def)+

lemma receives_fifo:
  assumes "receives F T w tee io p" and "nprocs w < 2 ^ 64"
  shows "fifo_ok T w tee p"
  using assms(1)
proof induction
  case start
  show ?case by (simp add: fifo_ok_def receive_init_def pending_def)
next
  case (step p p')
  then show ?case using fifo_ok_step receives_slots assms(2) by blast
qed

lemma receives_stg:
  assumes "receives F T w tee io p" and "frame_offsets F" and "frame_versions F"
  shows "stg (p_io p) = fold (ingest F T w tee) (p_done p) (stg io)"
  using assms(1)
proof induction
  case start
  show ?case by (simp add: receive_init_def)
next
  case (step p p')
  from step.hyps(2) show ?case
  proof cases
    case (proc_handle j x pr io')
    then show ?thesis
      using step.IH handle_stg [OF assms(2,3), of T w tee "p_slots p x" "p_procs p ! j" "p_io p"] by simp
  qed (use step.IH in \<open>simp_all add: dropped_def push_def Let_def\<close>)
qed

lemma flow_prefix:
  assumes "fifo_ok T w tee p" and "nprocs w < 2 ^ 64"
  shows "prefix (filter (\<lambda>s. flow_of T tee s = key) (p_done p)) (filter (\<lambda>s. flow_of T tee s = key) (p_acc p))"
proof (cases "filter (\<lambda>s. flow_of T tee s = key) (p_done p)")
  case (Cons s rest)
  define j where "j = queue_of T tee (nprocs w) s"
  have "s \<in> set (filter (\<lambda>s. flow_of T tee s = key) (p_done p))" by (simp add: Cons)
  then have j: "flow_of T tee s' = key \<Longrightarrow> queue_of T tee (nprocs w) s' = j" for s'
    using flow_queue [of T tee s' s] by (auto simp: j_def)
  have sub: "filter (\<lambda>s. flow_of T tee s = key) xs
      = filter (\<lambda>s. flow_of T tee s = key) (filter (\<lambda>s. queue_of T tee (nprocs w) s = j) xs)" for xs
    by (induction xs) (auto simp: j)
  have "j < nprocs w" using queue_of_less [OF nprocs_pos assms(2)] by (simp add: j_def)
  then show ?thesis using assms(1) unfolding fifo_ok_def by (subst (1 2) sub) (simp add: prefix_def)
qed simp

section \<open>Lemmas: progress\<close>

lemma slots_room:
  assumes "slots_ok w p"
  shows "p_rx p = Refill i n \<Longrightarrow> p_free p \<noteq> []"
    and "j < nprocs w \<Longrightarrow> p_work p ! j = Returning x \<Longrightarrow> length (p_free p) < slots_total w"
proof -
  note d = slots_okD [OF assms]
  have len: "length (owned p) = slots_total w" using d(7) by (metis diff_zero length_upt mset_eq_length)
  have q: "length (concat (p_queues p)) \<le> per w * nprocs w"
    using length_concat_le [of "p_queues p" "per w"] d(2) assms by (auto simp: slots_ok_def shape_ok_def)
  have h: "length (concat (map held (p_work p))) \<le> nprocs w" using length_held [of "p_work p"] d(3) by simp
  show "p_free p \<noteq> []" if "p_rx p = Refill i n"
    using that len q h d(1,5) by (auto simp: owned_def slots_total_def)
  show "length (p_free p) < slots_total w" if "j < nprocs w" "p_work p ! j = Returning x"
  proof -
    have "concat (map held (p_work p)) \<noteq> []" using held_not_Nil [of j "p_work p"] that d(3) by simp
    then have "length (concat (map held (p_work p))) \<noteq> 0" by (metis length_0_conv)
    moreover have "length (p_free p) + length (concat (map held (p_work p))) \<le> slots_total w" using len by (simp add: owned_def)
    ultimately show ?thesis by linarith
  qed
qed

text \<open>Work left for the processors: three steps for each queued slot.\<close>

fun phase_left :: "phase \<Rightarrow> nat" where
  "phase_left Idle = 0"
| "phase_left (Holding x) = 2"
| "phase_left (Returning x) = 1"

definition work_left :: "'b pipe \<Rightarrow> nat" where
  "work_left p = sum_list (map (\<lambda>q. 3 * length q) (p_queues p)) + sum_list (map phase_left (p_work p))"

lemma sum_list_upd: "j < length xs \<Longrightarrow> sum_list (map f (xs[j := y])) + f (xs ! j) = sum_list (map f xs) + (f y :: nat)"
proof (induction xs arbitrary: j)
  case (Cons a xs)
  then show ?case by (cases j) auto
qed simp

lemma stopped_step:
  assumes "receive_step F T w tee p p'" and "slots_ok w p" and "p_rx p = Stopped"
  shows "p_rx p' = Stopped \<and> p_acc p' = p_acc p \<and> work_left p' < work_left p"
proof -
  note d = slots_okD [OF assms(2)]
  from assms(1) show ?thesis
  proof cases
    case (proc_take j x xs)
    then show ?thesis
      using assms(3) d(2,3) sum_list_upd [of j "p_queues p" "\<lambda>q. 3 * length q" xs] sum_list_upd [of j "p_work p" phase_left "Holding x"]
      by (simp add: work_left_def)
  next
    case (proc_handle j x pr io)
    then show ?thesis using assms(3) d(3) sum_list_upd [of j "p_work p" phase_left "Returning x"] by (simp add: work_left_def)
  next
    case (proc_return j x)
    then show ?thesis using assms(3) d(3) sum_list_upd [of j "p_work p" phase_left "Idle"] by (simp add: work_left_def)
  qed (use assms(3) in simp_all)
qed

lemma mset_by_filter:
  assumes "\<And>j. j < n \<Longrightarrow> filter (\<lambda>s. f s = j) xs = filter (\<lambda>s. f s = j) ys" and "\<And>s. f s < n"
  shows "mset xs = mset ys"
proof (rule multiset_eqI)
  fix s
  have "count (mset zs) s = count (mset (filter (\<lambda>t. f t = f s) zs)) s" for zs by (induction zs) auto
  then show "count (mset xs) s = count (mset ys) s" using assms(1) [OF assms(2) [of s]] by metis
qed

lemma stuck_drained:
  assumes "slots_ok w p" and "fifo_ok T w tee p" and "nprocs w < 2 ^ 64" and "\<nexists>p'. receive_step F T w tee p p'"
  shows "mset (p_done p) = mset (p_acc p)"
proof -
  have "pending p j = []" if j: "j < nprocs w" for j
  proof (cases "p_work p ! j")
    case Idle
    have "p_queues p ! j = []" using assms(4) receive_step.proc_take [OF j Idle] by (metis neq_Nil_conv)
    with Idle show ?thesis by (simp add: pending_def)
  next
    case (Holding x)
    obtain pr io where "handle F T w tee (p_slots p x) (p_procs p ! j) (p_io p) = (pr, io)" by force
    then show ?thesis using receive_step.proc_handle [OF j Holding] assms(4) by blast
  next
    case (Returning x)
    then show ?thesis using receive_step.proc_return [OF j Returning slots_room(2) [OF assms(1) j Returning]] assms(4) by blast
  qed
  then show ?thesis
    using assms(2) queue_of_less [OF nprocs_pos assms(3)] mset_by_filter [of "nprocs w" "queue_of T tee (nprocs w)" "p_done p" "p_acc p"]
    by (simp add: fifo_ok_def)
qed

lemma rx_can_step:
  assumes "slots_ok w p" and "p_rx p \<noteq> Stopped"
  shows "\<exists>p'. receive_step F T w tee p p' \<and> p_rx p' \<noteq> p_rx p"
proof (cases "p_rx p")
  case Reading
  then show ?thesis using receive_step.stop [OF Reading] by force
next
  case (Handling i n)
  then have "i \<le> n" using slots_okD(5) [OF assms(1)] by simp
  show ?thesis
  proof (cases "i = n")
    case True
    then show ?thesis using Handling receive_step.batch_done [of p n] by force
  next
    case False
    with \<open>i \<le> n\<close> have "i < n" by simp
    let ?s = "p_slots p (p_batch p ! i)"
    consider "sl_trunc ?s" | "\<not> sl_trunc ?s" "sl_data ?s = []"
      | "\<not> sl_trunc ?s" "sl_data ?s \<noteq> []" "length (p_queues p ! queue_of T tee (nprocs w) ?s) < per w"
      | "\<not> sl_trunc ?s" "sl_data ?s \<noteq> []" "\<not> length (p_queues p ! queue_of T tee (nprocs w) ?s) < per w" by blast
    then show ?thesis
    proof cases
      case 1
      then show ?thesis using receive_step.truncated [OF Handling \<open>i < n\<close> refl] Handling by force
    next
      case 2
      then show ?thesis using receive_step.empty [OF Handling \<open>i < n\<close> refl] Handling by force
    next
      case 3
      then show ?thesis using receive_step.send [OF Handling \<open>i < n\<close> refl _ _ refl] Handling by (force simp: push_def Let_def)
    next
      case 4
      then show ?thesis using receive_step.full [OF Handling \<open>i < n\<close> refl _ _ refl] Handling by force
    qed
  qed
next
  case (WaitRoom i n)
  then show ?thesis using receive_step.wait_timeout [OF WaitRoom] by force
next
  case (Refill i n)
  with slots_room(1) [OF assms(1)] obtain x xs where "p_free p = x # xs" by (cases "p_free p") auto
  then show ?thesis using receive_step.refill [OF Refill] Refill by force
qed (use assms in simp)

section \<open>Lemmas: labels\<close>

definition label_ok :: "processor \<Rightarrow> bool" where
  "label_ok p \<longleftrightarrow> pr_src p = [] \<or> pr_src p = Addr_String (Addr6 (pr_lastSrc p))"

lemma label_memo: "label_ok p \<Longrightarrow> label a p = (src, p') \<Longrightarrow> src = Addr_String (Addr6 a) \<and> label_ok p'"
  by (auto simp: label_def label_ok_def Let_def split: if_splits)

lemma handle_label_ok: "label_ok p \<Longrightarrow> handle F T w tee s p io = (p', io') \<Longrightarrow> label_ok p'"
  by (auto simp: handle_def Let_def dest: label_memo split: if_splits sum.splits prod.splits)

lemma receives_label_ok: "receives F T w tee io p \<Longrightarrow> \<forall>pr \<in> set (p_procs p). label_ok pr"
proof (induction rule: receives.induct)
  case start
  show ?case by (simp add: receive_init_def new_processor_def label_ok_def)
next
  case (step p p')
  from step.hyps(2) show ?case
  proof cases
    case (proc_handle j x pr io')
    show ?thesis
    proof (cases "j < length (p_procs p)")
      case True
      with step.IH have "label_ok (p_procs p ! j)" by simp
      then have "label_ok pr" using handle_label_ok proc_handle(4) by blast
      then show ?thesis
        using step.IH set_update_subset_insert [of "p_procs p" j pr] by (auto simp: proc_handle(1))
    qed (use step.IH in \<open>simp add: proc_handle(1) list_update_beyond\<close>)
  qed (use step.IH in \<open>simp_all add: push_def Let_def\<close>)
qed

lemma ingest_key:
  assumes "tee_layout T" and "ingest F T w tee s b \<noteq> b"
  shows "\<exists>k raw ttl. flow_of T tee s = Some k \<and> ingest F T w tee s b = snd (Store_Store (w_cache w) k raw ttl b)"
proof (cases "tee \<and> IsEncap T (sl_data s)")
  case True
  with assms(2) obtain a raw where d: "Decap T (sl_data s) = Inr (a, raw)"
    by (auto simp: ingest_def split: sum.splits)
  with assms(1) have "raw = drop teewire_HeaderSize (sl_data s)" by (auto simp: tee_layout_def)
  with True d assms(2) show ?thesis by (auto simp: ingest_def store_frame_def flow_of_def Let_def split: if_splits)
next
  case False
  with assms(2) show ?thesis by (auto simp: ingest_def store_frame_def flow_of_def Let_def split: if_splits)
qed

section \<open>Properties\<close>

text \<open>
  C4: The concurrent pipeline has the effect of a sequential one.  At every moment the storage is what storing the handled
  datagrams one after the other produces, each writing at most its own flow key; and for every flow key the handled
  datagrams are the accepted ones, unaltered and in arrival order, up to those still waiting.  So whatever the
  interleaving of receiver and processors and however slots are reused, the last write of a key is the last to arrive.
\<close>

theorem pipeline_linear:
  assumes "receives F T w tee io p" and "nprocs w < 2 ^ 64" and "frame_offsets F" and "frame_versions F" and "tee_layout T"
  shows "stg (p_io p) = fold (ingest F T w tee) (p_done p) (stg io)
    \<and> (\<forall>s b. ingest F T w tee s b \<noteq> b \<longrightarrow>
         (\<exists>k raw ttl. flow_of T tee s = Some k \<and> ingest F T w tee s b = snd (Store_Store (w_cache w) k raw ttl b)))
    \<and> (\<forall>key. prefix (filter (\<lambda>s. flow_of T tee s = key) (p_done p)) (filter (\<lambda>s. flow_of T tee s = key) (p_acc p)))"
  by (intro conjI allI impI receives_stg [OF assms(1,3,4)] ingest_key [OF assms(5)] flow_prefix [OF receives_fifo [OF assms(1,2)] assms(2)])

text \<open>
  C24: Every slot is in exactly one place: the free list, the receiver's batch, a queue or a processor.  Queues respect their
  bound; when the receiver needs a slot the free list has one, and when a processor returns one the free list has room,
  so neither ever waits for the other through the free list.
\<close>

theorem slots_in_one_place:
  assumes "receives F T w tee io p" and "nprocs w < 2 ^ 64"
  shows "distinct (owned p) \<and> set (owned p) = {0..<slots_total w}
    \<and> (\<forall>j < nprocs w. length (p_queues p ! j) \<le> per w)
    \<and> (\<forall>i n. p_rx p = Refill i n \<longrightarrow> p_free p \<noteq> [])
    \<and> (\<forall>j x. j < nprocs w \<and> p_work p ! j = Returning x \<longrightarrow> length (p_free p) < slots_total w)"
proof -
  note so = receives_slots [OF assms]
  have "set (owned p) = {0..<slots_total w}" using slots_okD(7) [OF so] by (metis mset_eq_setD set_upt)
  then show ?thesis using distinct_owned [OF so] slots_okD(6) [OF so] slots_room [OF so] by blast
qed

text \<open>
  C25: The pipeline neither deadlocks nor loses accepted datagrams.  Until it returns, the receiver can always move on.  Once it has
  returned, every step of a processor brings the pipeline closer to its end, nothing more is accepted, and when no
  processor can move every accepted datagram has been handled.
\<close>

theorem pipeline_drains:
  assumes "receives F T w tee io p" and "nprocs w < 2 ^ 64"
  shows "(p_rx p \<noteq> Stopped \<longrightarrow> (\<exists>p'. receive_step F T w tee p p' \<and> p_rx p' \<noteq> p_rx p))
    \<and> (p_rx p = Stopped \<longrightarrow>
        (\<forall>p'. receive_step F T w tee p p' \<longrightarrow> p_rx p' = Stopped \<and> p_acc p' = p_acc p \<and> work_left p' < work_left p)
      \<and> ((\<nexists>p'. receive_step F T w tee p p') \<longrightarrow> mset (p_done p) = mset (p_acc p)))"
proof -
  note so = receives_slots [OF assms]
  show ?thesis
    using rx_can_step [OF so, of F T tee] stopped_step [OF _ so, of F T tee] stuck_drained [OF so receives_fifo [OF assms] assms(2), of F]
    by metis
qed

text \<open>
  The memoised source label is always the right one: whatever a processor has handled before, the label it gives a
  datagram is the text of that datagram's own source address.
\<close>

lemma label_exact:
  assumes "receives F T w tee io p" and "j < length (p_procs p)"
  shows "fst (label a (p_procs p ! j)) = Addr_String (Addr6 a)"
  using receives_label_ok [OF assms(1)] nth_mem [OF assms(2)] label_memo by (metis prod.collapse)

section \<open>Witnesses\<close>

definition ex_pipe_worker :: "(bytes, bytes) amap Worker" where
  "ex_pipe_worker = SetPipeline 2 1 ex_worker"

definition ex_tee :: teewire where
  "ex_tee = \<lparr>IsEncap = (\<lambda>p. p \<noteq> [] \<and> hd p = 0xEE),
     Decap = (\<lambda>p. if length p < teewire_HeaderSize then Inl ''short'' else Inr (Addr6 (go_slice 4 20 p), drop teewire_HeaderSize p))\<rparr>"

definition ex_slot :: slot where
  "ex_slot = \<lparr>sl_data = ex_frame 1 2 2, sl_from = replicate 15 0 @ [7], sl_v6 = True, sl_trunc = False\<rparr>"

lemma ex_tee_ok: "tee_layout ex_tee"
  by (simp add: tee_layout_def ex_tee_def)

lemma ex_pipe_size: "nprocs ex_pipe_worker = 1" "per ex_pipe_worker = 2" "slots_total ex_pipe_worker = 67"
  by code_simp+

lemma ex_queue: "queue_of T tee (Suc 0) s = 0" by (simp add: queue_of_def)

text \<open>One datagram is received, queued, taken and handled.\<close>

lemma ex_refill:
  "\<exists>p. receives ref_frame_pkg ex_tee ex_pipe_worker False ex_io p \<and> p_rx p = Refill 0 1 \<and> p_queues p = [[0]] \<and> p_work p = [Idle]
     \<and> p_acc p = [ex_slot] \<and> p_done p = [] \<and> p_slots p 0 = ex_slot \<and> p_procs p = [new_processor] \<and> p_io p = ex_io"
proof -
  let ?p0 = "receive_init ex_pipe_worker ex_io"
  let ?m = "\<lparr>rm_data = ex_frame 1 2 2, rm_v6 = True, rm_addr = replicate 15 0 @ [7]\<rparr>"
  have b: "p_batch ?p0 = 0 # [1..<64]" "p_rx ?p0 = Reading"
    by (simp_all add: receive_init_def ex_pipe_size recvBatchSize_def take_upt upt_conv_Cons [of 0 64])
  have len: "length (ex_frame 1 2 2) = 104" by (simp add: ex_frame_def)
  then have ne: "ex_frame 1 2 2 \<noteq> []" by force
  have m: "read_slot ?m = ex_slot" using len by (simp add: read_slot_def ex_slot_def slotSize_def)
  define p1 where "p1 = ?p0\<lparr>p_slots := batch_read (p_batch ?p0) [?m] (p_slots ?p0), p_rx := Handling 0 (length [?m])\<rparr>"
  have "receives ref_frame_pkg ex_tee ex_pipe_worker False ex_io p1"
    unfolding p1_def by (rule receives.step [OF receives.start receive_step.read]) (simp_all add: b)
  moreover have p1: "p_rx p1 = Handling 0 1" "p_slots p1 0 = ex_slot" "p_batch p1 ! 0 = 0" "p_queues p1 = [[]]"
    "p_acc p1 = []" "p_done p1 = []" "p_work p1 = [Idle]" "p_procs p1 = [new_processor]" "p_io p1 = ex_io"
    by (simp_all add: p1_def b m) (simp_all add: receive_init_def ex_pipe_size)
  moreover have "receive_step ref_frame_pkg ex_tee ex_pipe_worker False p1 (push 0 0 1 p1)"
    by (rule receive_step.send [OF p1(1) _ refl])
      (use ne in \<open>simp_all add: p1 ex_pipe_size ex_queue ex_slot_def\<close>)
  ultimately have "receives ref_frame_pkg ex_tee ex_pipe_worker False ex_io (push 0 0 1 p1)" by (blast intro: receives.step)
  then show ?thesis using p1 by (intro exI [of _ "push 0 0 1 p1"]) (simp add: push_def)
qed

theorem slots_in_one_place_witness:
  "\<exists>p. receives ref_frame_pkg ex_tee ex_pipe_worker False ex_io p \<and> p_rx p = Refill 0 1 \<and> p_free p \<noteq> []"
proof -
  obtain p where p: "receives ref_frame_pkg ex_tee ex_pipe_worker False ex_io p" "p_rx p = Refill 0 1" using ex_refill by blast
  have "nprocs ex_pipe_worker < 2 ^ 64" by (simp add: ex_pipe_size)
  from slots_in_one_place [OF p(1) this] p show ?thesis by blast
qed

lemma ex_handled:
  "\<exists>p. receives ref_frame_pkg ex_tee ex_pipe_worker False ex_io p \<and> p_done p = [ex_slot] \<and> p_acc p = [ex_slot] \<and> length (p_procs p) = 1"
proof -
  obtain p where p: "receives ref_frame_pkg ex_tee ex_pipe_worker False ex_io p" "p_rx p = Refill 0 1" "p_queues p = [[0]]"
    "p_work p = [Idle]" "p_acc p = [ex_slot]" "p_done p = []" "p_slots p 0 = ex_slot" "p_procs p = [new_processor]"
    using ex_refill by blast
  define p1 where "p1 = p\<lparr>p_queues := (p_queues p)[0 := []], p_work := (p_work p)[0 := Holding 0]\<rparr>"
  have "receives ref_frame_pkg ex_tee ex_pipe_worker False ex_io p1"
    unfolding p1_def by (rule receives.step [OF p(1) receive_step.proc_take]) (simp_all add: p ex_pipe_size)
  moreover obtain pr io where h: "handle ref_frame_pkg ex_tee ex_pipe_worker False (p_slots p1 0) (p_procs p1 ! 0) (p_io p1) = (pr, io)"
    by force
  define p2 where "p2 = p1\<lparr>p_work := (p_work p1)[0 := Returning 0], p_procs := (p_procs p1)[0 := pr], p_io := io,
    p_done := p_done p1 @ [p_slots p1 0]\<rparr>"
  have "receive_step ref_frame_pkg ex_tee ex_pipe_worker False p1 p2"
    unfolding p2_def by (rule receive_step.proc_handle [OF _ _ h]) (simp_all add: p1_def p ex_pipe_size)
  ultimately have "receives ref_frame_pkg ex_tee ex_pipe_worker False ex_io p2" by (rule receives.step)
  moreover have "p_done p2 = [ex_slot]" "p_acc p2 = [ex_slot]" "length (p_procs p2) = 1" by (simp_all add: p2_def p1_def p)
  ultimately show ?thesis by blast
qed

theorem pipeline_linear_witness:
  "\<exists>p. receives ref_frame_pkg ex_tee ex_pipe_worker False ex_io p
     \<and> stg (p_io p) = ingest ref_frame_pkg ex_tee ex_pipe_worker False ex_slot []"
proof -
  obtain p where p: "receives ref_frame_pkg ex_tee ex_pipe_worker False ex_io p" "p_done p = [ex_slot]" using ex_handled by blast
  have "nprocs ex_pipe_worker < 2 ^ 64" by (simp add: ex_pipe_size)
  from conjunct1 [OF pipeline_linear [OF p(1) this ref_frame_pkg_ok ex_tee_ok]] p(2)
  have "stg (p_io p) = ingest ref_frame_pkg ex_tee ex_pipe_worker False ex_slot []" by (simp add: ex_io_def)
  with p(1) show ?thesis by blast
qed

theorem pipeline_drains_witness:
  "\<exists>p p'. receives ref_frame_pkg ex_tee ex_pipe_worker False ex_io p \<and> p_rx p = Refill 0 1
     \<and> receive_step ref_frame_pkg ex_tee ex_pipe_worker False p p' \<and> p_rx p' \<noteq> Refill 0 1"
proof -
  obtain p where p: "receives ref_frame_pkg ex_tee ex_pipe_worker False ex_io p" "p_rx p = Refill 0 1" using ex_refill by blast
  have "nprocs ex_pipe_worker < 2 ^ 64" by (simp add: ex_pipe_size)
  from conjunct1 [OF pipeline_drains [OF p(1) this]] p(2)
  obtain p' where "receive_step ref_frame_pkg ex_tee ex_pipe_worker False p p'" "p_rx p' \<noteq> Refill 0 1" by auto
  with p show ?thesis by blast
qed

end
