(* ===== verification/Endpoint_Main.thy ===== *)
theory Endpoint_Main
  imports Metrics_Setup Config_Load Nack_Properties Ingress_Sockets Ingress_Pipeline
begin

text \<open>
  The wiring of \<^verbatim>\<open>src/main.go\<close>: from a loaded configuration to groups, source lists, stores, retransmitter, proxy, server,
  ingress workers and beacon.  Outcomes of opening backends and sockets, of name resolution and of the network interfaces
  are parameters.  Logging, tracing, goroutine start and signal delivery are not part of the model.
\<close>

section \<open>Source lists\<close>

text \<open>
  \<^verbatim>\<open>out := srcs[:0]\<close> filters in place: the second component is the array behind \<^verbatim>\<open>srcs\<close> afterwards.
\<close>

definition excludeOwnSource :: "Addr list \<Rightarrow> Addr \<Rightarrow> Addr list \<times> Addr list" where
  "excludeOwnSource srcs own =
    (if own = InvalidAddr then (srcs, srcs)
     else let out = filter (\<lambda>s. s \<noteq> own) srcs in (out, out @ drop (length out) srcs))"

text \<open>
  What the program uses of \<^verbatim>\<open>bootstrap.Resolver\<close>: the outcome of \<^verbatim>\<open>Start\<close> with the addresses found, and whether
  \<^verbatim>\<open>Current\<close> hands out a copy of its list or the list itself.
\<close>

record resolver =
  rs_Start :: "string list \<Rightarrow> string + Addr list"
  rs_copies :: bool

fun assign_sources :: "bool \<Rightarrow> Addr \<Rightarrow> Addr list \<Rightarrow> bytes list \<Rightarrow> GroupSources \<Rightarrow> string + GroupSources" where
  "assign_sources copies own cur [] target = Inr target"
| "assign_sources copies own cur (gip # gips) target =
    (let ga = AddrFromSlice (case To16 gip of Some b \<Rightarrow> b | None \<Rightarrow> []) in
     if ga = InvalidAddr then Inl ''group: not IPv6''
     else
       (let (out, back) = excludeOwnSource cur own
        in assign_sources copies own (if copies then cur else back) gips (amap_put ga out target)))"

definition resolve_into :: "resolver \<Rightarrow> Addr \<Rightarrow> string list \<Rightarrow> bytes list \<Rightarrow> GroupSources \<Rightarrow> string + GroupSources" where
  "resolve_into R own entries gips target =
    (if entries = [] then Inr target
     else case rs_Start R entries of
       Inl e \<Rightarrow> Inl e
     | Inr cur \<Rightarrow> assign_sources (rs_copies R) own cur gips target)"

definition put_sources :: "Addr list \<Rightarrow> bytes \<Rightarrow> GroupSources \<Rightarrow> GroupSources" where
  "put_sources srcs ip gs =
    (let ga = AddrFromSlice (case To16 ip of Some b \<Rightarrow> b | None \<Rightarrow> [])
     in if ga = InvalidAddr then gs else amap_put ga srcs gs)"

definition own_source :: "Config \<Rightarrow> Addr" where
  "own_source cfg = (if BindSource cfg \<noteq> [] then ParseAddr (BindSource cfg) else InvalidAddr)"

definition beef_band :: "Config \<Rightarrow> u16 list" where
  "beef_band cfg = map (\<lambda>i. 0x1000 + of_nat i) [0..<2 ^ unat (BEEFShardBits cfg)]"

definition buildSSMGroupSources :: "resolver \<Rightarrow> group_addr \<Rightarrow> Config \<Rightarrow> string + GroupSources" where
  "buildSSMGroupSources R G cfg =
    (let own = own_source cfg;
         grp = G (MCPrefix cfg) (MCGroupID cfg)
     in then_ok (resolve_into R own (SSMBootstrapBeacon cfg) [grp GroupBeacon] []) (\<lambda>gs.
        then_ok (resolve_into R own (SSMBootstrapSubtreeAnn cfg) [grp GroupSubtreeDataAnnounce, grp GroupSubtreeGroupAnnounce] gs) (\<lambda>gs.
        then_ok (resolve_into R own (SSMBootstrapManifest cfg) [grp GroupBlockBroadcast] gs) (\<lambda>gs.
        if SSMPublishersStatic cfg = [] then Inr gs
        else case rs_Start R (SSMPublishersStatic cfg) of
          Inl e \<Rightarrow> Inl ''publishers-static''
        | Inr cur \<Rightarrow>
            (let srcs = fst (excludeOwnSource cur own);
                 gs = fold (\<lambda>idx. put_sources srcs (grp (of_nat idx))) [0..<unat (NumGroups cfg)] gs
             in Inr (if BEEFEnabled cfg then fold (\<lambda>i. put_sources srcs (grp i)) (beef_band cfg) gs else gs))))))"

section \<open>Groups, identity and address\<close>

definition buildGroups :: "group_addr \<Rightarrow> engine \<Rightarrow> Config \<Rightarrow> UDPAddr list" where
  "buildGroups G eng cfg =
    map (\<lambda>i. Addr_at eng (of_nat i) (ListenPort cfg)) [0..<unat (NumGroups cfg)]
     @ [\<lparr>uIP = G (MCPrefix cfg) (MCGroupID cfg) GroupBlockBroadcast, uPort = ListenPort cfg\<rparr>]
     @ (if SubtreeDataEnabled cfg
        then [\<lparr>uIP = G (MCPrefix cfg) (MCGroupID cfg) GroupSubtreeDataAnnounce, uPort = ListenPort cfg\<rparr>] else [])
     @ (if BEEFEnabled cfg
        then map (\<lambda>i. Addr_at eng (0x1000 + of_nat i) (ListenPort cfg)) [0..<2 ^ unat (BEEFShardBits cfg)] else [])"

text \<open>CRC-32C, bit by bit, as \<^verbatim>\<open>crc32.Checksum\<close> with the Castagnoli table computes it.\<close>

definition crc_bit :: "u32 \<Rightarrow> u32" where
  "crc_bit c = (if c AND 1 = 1 then drop_bit 1 c XOR 0x82F63B78 else drop_bit 1 c)"

definition crc32c :: "bytes \<Rightarrow> u32" where
  "crc32c bs = NOT (foldl (\<lambda>c b. (crc_bit ^^ 8) (c XOR ucast b)) (NOT 0) bs)"

definition hashInstanceID :: "string \<Rightarrow> u32" where
  "hashInstanceID s = (let h = crc32c (ascii s) in if h = 0 then 1 else h)"

definition IsGlobalUnicast6 :: "bytes \<Rightarrow> bool" where
  "IsGlobalUnicast6 ip \<longleftrightarrow> length ip = 16 \<and> ip \<noteq> replicate 16 0 \<and> ip \<noteq> replicate 15 0 @ [1] \<and> ip ! 0 \<noteq> 0xFF
     \<and> \<not> (ip ! 0 = 0xFE \<and> ip ! 1 AND 0xC0 = 0x80)"

text \<open>The addresses of the interface: an error, or the IP of each (\<open>None\<close> for address types without one).\<close>

definition pickBeaconNACKAddr :: "string \<Rightarrow> string + bytes option list \<Rightarrow> string + bytes" where
  "pickBeaconNACKAddr expl addrs =
    (if expl \<noteq> [] then
       (case ParseIP expl of None \<Rightarrow> Inl ''invalid nack-addr'' | Some ip \<Rightarrow> Inr (case To16 ip of Some b \<Rightarrow> b | None \<Rightarrow> []))
     else case addrs of
       Inl e \<Rightarrow> Inl e
     | Inr as \<Rightarrow>
         (case filter (\<lambda>a. case a of None \<Rightarrow> False | Some ip \<Rightarrow> To4 ip = None \<and> IsGlobalUnicast6 ip) as of
            Some ip # _ \<Rightarrow> Inr (case To16 ip of Some b \<Rightarrow> b | None \<Rightarrow> [])
          | _ \<Rightarrow> Inl ''no global-unicast IPv6 address''))"

section \<open>Wiring\<close>

text \<open>Which backend serves cross-instance dedup; \<open>opened\<close> is the outcome of opening the separate Redis backend.\<close>

definition dedup_backend :: "Config \<Rightarrow> 'b Backend \<Rightarrow> string + 'b Backend \<Rightarrow> 'b Backend option" where
  "dedup_backend cfg frameBackend opened =
    (if CacheBackend cfg = ''redis'' \<or> CacheBackend cfg = ''aerospike'' then Some frameBackend
     else if CacheBackend cfg = ''memory'' \<and> RedisAddr cfg \<noteq> []
       then (case opened of Inl _ \<Rightarrow> None | Inr b \<Rightarrow> Some b)
     else None)"

definition frame_store :: "Config \<Rightarrow> 'b Backend \<Rightarrow> 'b Store" where
  "frame_store cfg B = NewStore B (ascii ''bre:frame:'') (CacheOpTimeout cfg)"

definition dedup_store :: "Config \<Rightarrow> 'b Backend \<Rightarrow> 'b Store" where
  "dedup_store cfg B = NewStore B (ascii ''bre:dedup:'') (CacheOpTimeout cfg)"

definition proxy_dedup_store :: "Config \<Rightarrow> 'b Backend \<Rightarrow> 'b Store" where
  "proxy_dedup_store cfg B = NewStore B (ascii ''bre:proxy:'') (CacheOpTimeout cfg)"

definition cache_ttls :: "Config \<Rightarrow> TTLConfig" where
  "cache_ttls cfg = \<lparr>ttl_Tx = CacheTTLTx cfg, ttl_Block = CacheTTLBlock cfg, ttl_Subtree = CacheTTLSubtree cfg,
     ttl_Anchor = CacheTTLAnchor cfg, ttl_BEEF = CacheTTLBEEF cfg\<rparr>"

definition limiter_config :: "Config \<Rightarrow> RLConfig" where
  "limiter_config cfg = \<lparr>IPRate = RLIPRate cfg, IPBurst = RLIPBurst cfg, SenderRate = RLSenderRate cfg,
     SenderWindow = RLSenderWindow cfg, ChainRate = RLChainRate cfg, ChainWindow = RLChainWindow cfg,
     SequenceMax = RLSequenceMax cfg, SequenceWindow = RLSequenceWindow cfg, GroupRate = RLGroupRate cfg,
     GroupBurst = RLGroupBurst cfg\<rparr>"

definition build_retransmitter :: "Config \<Rightarrow> engine \<Rightarrow> plane_engine \<Rightarrow> 'b Backend option \<Rightarrow> bytes \<Rightarrow> 'b Retransmitter" where
  "build_retransmitter cfg eng beef dedupB nackIP =
    SetMulticastLoop (EgressMulticastLoop cfg) (SetUnicastSource nackIP (SetBEEF (Some beef)
      (new_Retransmitter eng (EgressIfaces cfg) (EgressPort cfg) (DedupWindow cfg) (map_option (dedup_store cfg) dedupB))))"

definition build_proxy :: "Config \<Rightarrow> 'b Backend \<Rightarrow> 'b Backend option \<Rightarrow> 's RetransmitterI \<Rightarrow> bytes \<Rightarrow> ('b, 's) ProxyConfig option" where
  "build_proxy cfg frameBackend dedupB rt nackIP =
    (if ProxyEnabled cfg
     then Some (proxy_New \<lparr>Upstreams = UpstreamRetryEndpoints cfg, SourceIP = Some nackIP, pc_Timeout = ProxyTimeout cfg,
       MaxEndpoints = ProxyMaxEndpoints cfg, pc_DedupWindow = ProxyDedupWindow cfg, pc_Workers = ProxyWorkers cfg,
       QueueDepth = ProxyQueue cfg, pc_Dedup = map_option (proxy_dedup_store cfg) dedupB, pc_Cache = frame_store cfg frameBackend,
       pc_Retrans = rt, pc_TTLs = cache_ttls cfg, pc_Multicast = BeaconFlagsMulticast cfg, pc_Unicast = BeaconFlagsUnicast cfg\<rparr>)
     else None)"

definition build_server :: "Config \<Rightarrow> 'b Backend \<Rightarrow> engine \<Rightarrow> plane_engine \<Rightarrow> 's RetransmitterI \<Rightarrow> 's enqueuer option \<Rightarrow> bytes \<Rightarrow> ('b, 's) Server" where
  "build_server cfg frameBackend eng beef rt px nackIP =
    (let srv = server_New (NACKPort cfg) (frame_store cfg frameBackend) rt (NACKWorkers cfg) (Debug cfg);
         srv = SetBindAddr (IP_String nackIP) srv;
         srv = SetSuppressACK (SuppressACK cfg) srv;
         srv = SetSuppressMISS (SuppressMISS cfg) srv;
         srv = SetThrottleResponse (ThrottleResponse cfg) srv;
         srv = SetShardEngine (Some eng) srv;
         srv = SetBEEFEngine (Some beef) srv;
         srv = SetRetransmitModes (BeaconFlagsMulticast cfg) (BeaconFlagsUnicast cfg) srv
     in if ProxyEnabled cfg then SetProxy px srv else srv)"

text \<open>The ingress workers, with their source lists in source-specific mode.\<close>

definition build_workers :: "Config \<Rightarrow> 'b Backend \<Rightarrow> string option \<Rightarrow> UDPAddr list \<Rightarrow> GroupSources option \<Rightarrow> 'b Worker list" where
  "build_workers cfg frameBackend mcIface groups gs =
    map (\<lambda>part.
      (let w = SetPipeline (cf_QueueDepth cfg) (IngressProcs cfg) (SetRecvBuf (RecvBufBytes cfg)
             (ingress_New mcIface (ListenPort cfg) part (frame_store cfg frameBackend) (cache_ttls cfg)))
       in case gs of Some m \<Rightarrow> SetGroupSources m w | None \<Rightarrow> w))
    (Partition groups (NumWorkers cfg))"

definition beacon_flags :: "Config \<Rightarrow> u16" where
  "beacon_flags cfg =
    (let f = (if BeaconFlagsUnicast cfg then 0 OR FlagUnicastRetransmit else 0);
         f = (if BeaconFlagsMulticast cfg then f OR FlagMulticastRetransmit else f);
         f = (if BeaconFlagsDraining cfg then f OR FlagDraining else f)
     in if ProxyEnabled cfg then f OR FlagHasParent else f)"

text \<open>\<open>host\<close> is the outcome of \<^verbatim>\<open>os.Hostname\<close>.\<close>

definition beacon_config :: "Config \<Rightarrow> bytes \<Rightarrow> string option \<Rightarrow> u16 list \<Rightarrow> BeaconConfig" where
  "beacon_config cfg nackIP host ps =
    beacon_New \<lparr>bc_NACKAddr = nackIP, bc_NACKPort = of_int (NACKPort cfg), bc_Tier = ucast (BeaconTier cfg),
      bc_Preference = ucast (BeaconPreference cfg), bc_Interval = BeaconInterval cfg, bc_Scope = BeaconScopeByte cfg,
      bc_Flags = beacon_flags cfg,
      bc_InstanceID = hashInstanceID (if InstanceID cfg = [] then (case host of Some h \<Rightarrow> h | None \<Rightarrow> []) else InstanceID cfg),
      bc_GroupID = MCGroupID cfg, bc_Iface = Some (hd (EgressIfaces cfg)),
      bc_BindSource = (if BindSource cfg \<noteq> [] then ParseIP (BindSource cfg) else None), bc_GroupPrefixes = ps\<rparr>"

text \<open>Outcomes of what \<^verbatim>\<open>run\<close> asks of the system, and the endpoint it builds from them.\<close>

record 'b setup_env =
  se_metrics :: metrics_env
  se_newPlane :: "string option"
  se_openFrames :: "string + 'b Backend"
  se_openRedis :: "string + 'b Backend"
  se_iface :: "string \<Rightarrow> bool"
  se_addrs :: "string + bytes option list"
  se_openEgress :: "string \<Rightarrow> go_error option"
  se_openUnicast :: "go_error option"
  se_hostname :: "string option"

record ('b, 's) endpoint =
  ep_recorder :: Recorder
  ep_own_source :: "string option"
  ep_limits :: RLConfig
  ep_retrans :: "'b Retransmitter"
  ep_proxy :: "('b, 's) ProxyConfig option"
  ep_server :: "('b, 's) Server"
  ep_workers :: "'b Worker list"
  ep_joining :: bool
  ep_tee :: "(Addr \<times> u16) option"
  ep_beacon :: "BeaconConfig option"

text \<open>
  The recorder the endpoint starts with: it waits for the workers there are, and every source joined has a series.  Go
  ranges over the sources in any order; here it is the order of the table.
\<close>

definition joined_sources :: "GroupSources \<Rightarrow> string list" where
  "joined_sources gs = remdups (map Addr_String (concat (map snd gs)))"

definition build_recorder :: "Config \<Rightarrow> 'b Worker list \<Rightarrow> GroupSources option \<Rightarrow> Recorder" where
  "build_recorder cfg ings gs =
    (let r = rec_SetWorkers (int (length ings)) (new_Recorder (NumWorkers cfg))
     in case gs of Some m \<Rightarrow> rec_PreCreateSources (joined_sources m) r | None \<Rightarrow> r)"

text \<open>
  \<^verbatim>\<open>SetOwnSource\<close>: the label of the gauge that names the node's own source, in the spelling of the data path, or no gauge.
\<close>

definition SetOwnSource :: "string \<Rightarrow> string option" where
  "SetOwnSource src = (case ParseAddr src of InvalidAddr \<Rightarrow> None | a \<Rightarrow> Some (Addr_String a))"

text \<open>
  Workers run if joining is enabled, worker 0 also serves the tee if one is configured; the ADVERT carries the address the
  server is bound to, as both come from the same interface.
\<close>

definition run_setup :: "frame_pkg \<Rightarrow> group_addr \<Rightarrow> engine \<Rightarrow> plane_engine \<Rightarrow> resolver \<Rightarrow> 'sc shard_scopes \<Rightarrow> 'b setup_env \<Rightarrow> Config
    \<Rightarrow> string + ('b, ('b, 'l, 'z) world_scheme) endpoint" where
  "run_setup F G eng beef R S se cfg =
    (if isl (metrics_New (se_metrics se) (InstanceID cfg) (NumWorkers cfg) (OTLPEndpoint cfg)) then Inl ''metrics''
     else if se_newPlane se \<noteq> None then Inl ''beef plane''
     else then_ok (se_openFrames se) (\<lambda>frameBackend.
       let dedupB = dedup_backend cfg frameBackend (se_openRedis se);
           groups = buildGroups G eng cfg;
           mcIface = (if MCJoinEnabled cfg then Some (MCIface cfg) else None)
       in if MCJoinEnabled cfg \<and> \<not> se_iface se (MCIface cfg) then Inl ''no multicast interface''
          else if \<not> list_all (se_iface se) (EgressIfaces cfg) then Inl ''no egress interface''
          else then_ok (pickBeaconNACKAddr (BeaconNACKAddr cfg) (se_addrs se)) (\<lambda>nackIP.
            let (e, rt) = Retransmitter_Open (se_openEgress se) (se_openUnicast se) (build_retransmitter cfg eng beef dedupB nackIP) in
            if e \<noteq> None then Inl ''retransmitter''
            else
              (let rti = retransmitter_iface F G rt;
                   px = build_proxy cfg frameBackend dedupB rti nackIP;
                   srv = build_server cfg frameBackend eng beef rti (map_option Enqueue px) nackIP
               in then_ok (if SourceMode cfg = ''ssm'' then map_sum id Some (buildSSMGroupSources R G cfg) else Inr None) (\<lambda>gs.
                  then_ok (if BeaconEnabled cfg
                    then map_sum id (\<lambda>ps. Some (beacon_config cfg nackIP (se_hostname se) ps))
                      (BeaconGroupPrefixes S (ControlGroupCompat cfg) (SourceMode cfg) (BeaconScope cfg))
                    else Inr None) (\<lambda>bc.
                  let ings = build_workers cfg frameBackend mcIface groups gs in
                  Inr \<lparr>ep_recorder = build_recorder cfg ings gs, ep_own_source = SetOwnSource (BindSource cfg), ep_limits = limiter_config cfg, ep_retrans = rt, ep_proxy = px,
                    ep_server = srv, ep_workers = ings, ep_joining = MCJoinEnabled cfg, ep_tee = TeeListen cfg, ep_beacon = bc\<rparr>))))))"

text \<open>One tick of the cache-size sampler, which runs for the in-memory backend only.\<close>

definition sample_cache_size :: "Config \<Rightarrow> 'b Store \<Rightarrow> ('b, 'z) io_scheme \<Rightarrow> ('b, 'z) io_scheme" where
  "sample_cache_size cfg c s = (if CacheBackend cfg = ''memory'' then io_rec (rec_CacheSize (Store_Len c (stg s))) s else s)"

section \<open>Lemmas: the parts of an endpoint\<close>

definition wired_parts :: "frame_pkg \<Rightarrow> group_addr \<Rightarrow> engine \<Rightarrow> plane_engine \<Rightarrow> resolver \<Rightarrow> 'sc shard_scopes \<Rightarrow> 'b setup_env \<Rightarrow> Config
    \<Rightarrow> ('b, ('b, 'l, 'z) world_scheme) endpoint \<Rightarrow> 'b Backend \<Rightarrow> bytes \<Rightarrow> GroupSources option \<Rightarrow> bool" where
  "wired_parts F G eng beef R S se cfg ep fb nackIP gs \<longleftrightarrow>
     se_openFrames se = Inr fb \<and> pickBeaconNACKAddr (BeaconNACKAddr cfg) (se_addrs se) = Inr nackIP
   \<and> Retransmitter_Open (se_openEgress se) (se_openUnicast se)
       (build_retransmitter cfg eng beef (dedup_backend cfg fb (se_openRedis se)) nackIP) = (None, ep_retrans ep)
   \<and> ep_proxy ep = build_proxy cfg fb (dedup_backend cfg fb (se_openRedis se)) (retransmitter_iface F G (ep_retrans ep)) nackIP
   \<and> ep_server ep = build_server cfg fb eng beef (retransmitter_iface F G (ep_retrans ep)) (map_option Enqueue (ep_proxy ep)) nackIP
   \<and> ep_workers ep = build_workers cfg fb (if MCJoinEnabled cfg then Some (MCIface cfg) else None) (buildGroups G eng cfg) gs
   \<and> ep_recorder ep = build_recorder cfg (ep_workers ep) gs \<and> ep_own_source ep = SetOwnSource (BindSource cfg)
   \<and> (if SourceMode cfg = ''ssm'' then \<exists>m. gs = Some m \<and> buildSSMGroupSources R G cfg = Inr m else gs = None)
   \<and> (if BeaconEnabled cfg then \<exists>ps. ep_beacon ep = Some (beacon_config cfg nackIP (se_hostname se) ps) else ep_beacon ep = None)"

lemma run_setup_parts:
  assumes "run_setup F G eng beef R S se cfg = Inr ep"
  obtains fb nackIP gs where "wired_parts F G eng beef R S se cfg ep fb nackIP gs"
proof -
  from assms obtain fb nackIP where fb: "se_openFrames se = Inr fb" and ip: "pickBeaconNACKAddr (BeaconNACKAddr cfg) (se_addrs se) = Inr nackIP"
    by (auto simp: run_setup_def then_ok_Inr Let_def split: if_splits prod.splits)
  obtain e rt where op: "Retransmitter_Open (se_openEgress se) (se_openUnicast se)
      (build_retransmitter cfg eng beef (dedup_backend cfg fb (se_openRedis se)) nackIP) = (e, rt)" by force
  from assms fb ip op obtain gs bc where
    gs: "(if SourceMode cfg = ''ssm'' then map_sum id Some (buildSSMGroupSources R G cfg) else Inr None) = Inr gs" and
    bc: "(if BeaconEnabled cfg then map_sum id (\<lambda>ps. Some (beacon_config cfg nackIP (se_hostname se) ps))
      (BeaconGroupPrefixes S (ControlGroupCompat cfg) (SourceMode cfg) (BeaconScope cfg)) else Inr None) = Inr bc" and
    e: "e = None" and
    ep: "ep_retrans ep = rt" "ep_beacon ep = bc"
      "ep_proxy ep = build_proxy cfg fb (dedup_backend cfg fb (se_openRedis se)) (retransmitter_iface F G rt) nackIP"
      "ep_server ep = build_server cfg fb eng beef (retransmitter_iface F G rt) (map_option Enqueue (ep_proxy ep)) nackIP"
      "ep_workers ep = build_workers cfg fb (if MCJoinEnabled cfg then Some (MCIface cfg) else None) (buildGroups G eng cfg) gs"
      "ep_recorder ep = build_recorder cfg (ep_workers ep) gs" "ep_own_source ep = SetOwnSource (BindSource cfg)"
    by (auto simp: run_setup_def then_ok_Inr Let_def simp del: if_image_distrib split: if_splits)
  have "if SourceMode cfg = ''ssm'' then \<exists>m. gs = Some m \<and> buildSSMGroupSources R G cfg = Inr m else gs = None"
    using gs by (cases "buildSSMGroupSources R G cfg") (auto split: if_splits)
  moreover have "if BeaconEnabled cfg then \<exists>ps. bc = Some (beacon_config cfg nackIP (se_hostname se) ps) else bc = None"
    using bc by (cases "BeaconGroupPrefixes S (ControlGroupCompat cfg) (SourceMode cfg) (BeaconScope cfg)") (auto split: if_splits)
  ultimately have "wired_parts F G eng beef R S se cfg ep fb nackIP gs"
    unfolding wired_parts_def using fb ip op e ep by simp
  then show ?thesis by (rule that)
qed

lemma server_parts [simp]:
  "sv_retransmit (build_server cfg fb eng beef rt px nackIP) = rt"
  "sv_cache (build_server cfg fb eng beef rt px nackIP) = frame_store cfg fb"
  "retransmitMC (build_server cfg fb eng beef rt px nackIP) = BeaconFlagsMulticast cfg"
  "retransmitUC (build_server cfg fb eng beef rt px nackIP) = BeaconFlagsUnicast cfg"
  "suppressACK (build_server cfg fb eng beef rt px nackIP) = SuppressACK cfg"
  "sv_proxy (build_server cfg fb eng beef rt px nackIP) = (if ProxyEnabled cfg then px else None)"
  "sv_port (build_server cfg fb eng beef rt px nackIP) = NACKPort cfg"
  "sv_bindAddr (build_server cfg fb eng beef rt px nackIP) = IP_String nackIP"
  by (simp_all add: build_server_def Let_def server_New_def SetBindAddr_def SetSuppressACK_def SetSuppressMISS_def
      SetThrottleResponse_def SetShardEngine_def SetBEEFEngine_def SetRetransmitModes_def SetProxy_def)

lemma worker_parts:
  assumes "w \<in> set (build_workers cfg fb ifc groups gs)"
  shows "w_cache w = frame_store cfg fb" "w_ttls w = cache_ttls cfg" "w_sources w = gs" "set (w_groups w) \<subseteq> set groups"
    and "w_iface w = ifc"
proof -
  from assms obtain part where p: "part \<in> set (Partition groups (NumWorkers cfg))"
    and w: "w = (let w = SetPipeline (cf_QueueDepth cfg) (IngressProcs cfg) (SetRecvBuf (RecvBufBytes cfg)
        (ingress_New ifc (ListenPort cfg) part (frame_store cfg fb) (cache_ttls cfg)))
      in case gs of Some m \<Rightarrow> SetGroupSources m w | None \<Rightarrow> w)"
    by (auto simp: build_workers_def)
  show "w_cache w = frame_store cfg fb" "w_ttls w = cache_ttls cfg" "w_sources w = gs" "w_iface w = ifc"
    by (auto simp: w Let_def SetGroupSources_def SetPipeline_def SetRecvBuf_def ingress_New_def split: option.splits)
  have "w_groups w = part"
    by (auto simp: w Let_def SetGroupSources_def SetPipeline_def SetRecvBuf_def ingress_New_def split: option.splits)
  moreover have "set part \<subseteq> set (concat (Partition groups (NumWorkers cfg)))" using p by auto
  ultimately show "set (w_groups w) \<subseteq> set groups" using Partition_mset [of groups "NumWorkers cfg"] mset_eq_setD by fastforce
qed

lemma workers_cover:
  assumes "grp \<in> set groups"
  shows "\<exists>w \<in> set (build_workers cfg fb ifc groups gs). grp \<in> set (w_groups w)"
proof -
  have "grp \<in> set (concat (Partition groups (NumWorkers cfg)))"
    using assms Partition_mset [of groups "NumWorkers cfg"] mset_eq_setD by blast
  then obtain part where part: "part \<in> set (Partition groups (NumWorkers cfg))" "grp \<in> set part" by auto
  have "w_groups (case gs of Some m \<Rightarrow> SetGroupSources m w | None \<Rightarrow> w) = w_groups w" for w :: "'a Worker"
    by (simp add: SetGroupSources_def split: option.splits)
  then have wg: "w_groups (let w = SetPipeline q p (SetRecvBuf b (ingress_New ifc port part c t))
      in case gs of Some m \<Rightarrow> SetGroupSources m w | None \<Rightarrow> w) = part" for q p b port t and c :: "'a Store"
    by (simp add: Let_def SetPipeline_def SetRecvBuf_def ingress_New_def)
  show ?thesis unfolding build_workers_def set_map bex_simps by (rule bexI [OF _ part(1)]) (simp only: wg part(2))
qed

section \<open>Lemmas: source lists\<close>

abbreviation group_at :: "bytes \<Rightarrow> Addr" where
  "group_at ip \<equiv> AddrFromSlice (case To16 ip of Some b \<Rightarrow> b | None \<Rightarrow> [])"

definition roster_free :: "Addr \<Rightarrow> GroupSources \<Rightarrow> bool" where
  "roster_free own gs \<longleftrightarrow> (\<forall>(ga, srcs) \<in> set gs. own \<notin> set srcs)"

lemma fst_excludeOwnSource: "fst (excludeOwnSource srcs own) = filter (\<lambda>a. own = InvalidAddr \<or> a \<noteq> own) srcs"
  by (simp add: excludeOwnSource_def Let_def)

lemma roster_put: "roster_free own gs \<Longrightarrow> own \<notin> set srcs \<Longrightarrow> roster_free own (amap_put ga srcs gs)"
proof -
  have "set (amap_put k v m) \<subseteq> insert (k, v) (set m)" for k :: Addr and v :: "Addr list" and m
    by (induction m) (auto simp: amap_put_def)
  then show "roster_free own gs \<Longrightarrow> own \<notin> set srcs \<Longrightarrow> roster_free own (amap_put ga srcs gs)"
    unfolding roster_free_def by blast
qed

lemma assign_sources_step:
  "assign_sources copies own cur (gip # gips) target =
    (if group_at gip = InvalidAddr then Inl ''group: not IPv6''
     else assign_sources copies own (if copies then cur else snd (excludeOwnSource cur own)) gips
       (amap_put (group_at gip) (fst (excludeOwnSource cur own)) target))"
  by (simp add: Let_def split: prod.split)

declare assign_sources.simps(2) [simp del]

lemma assign_free:
  "assign_sources copies own cur gips gs = Inr gs' \<Longrightarrow> own \<noteq> InvalidAddr \<Longrightarrow> roster_free own gs \<Longrightarrow> roster_free own gs'"
proof (induction gips arbitrary: cur gs)
  case (Cons gip gips)
  have "roster_free own (amap_put (group_at gip) (fst (excludeOwnSource cur own)) gs)"
    using Cons.prems by (intro roster_put) (auto simp: fst_excludeOwnSource)
  with Cons show ?case by (auto simp: assign_sources_step split: if_splits)
qed simp

lemma assign_get:
  "assign_sources copies own cur gips gs = Inr gs' \<Longrightarrow> ga \<notin> group_at ` set gips \<Longrightarrow> amap_get gs' ga = amap_get gs ga"
  by (induction gips arbitrary: cur gs) (auto simp: assign_sources_step split: if_splits)

lemma resolve_free:
  "resolve_into R own entries gips gs = Inr gs' \<Longrightarrow> own \<noteq> InvalidAddr \<Longrightarrow> roster_free own gs \<Longrightarrow> roster_free own gs'"
  by (auto simp: resolve_into_def split: if_splits sum.splits intro: assign_free)

lemma resolve_get:
  "resolve_into R own entries gips gs = Inr gs' \<Longrightarrow> ga \<notin> group_at ` set gips \<Longrightarrow> amap_get gs' ga = amap_get gs ga"
  by (auto simp: resolve_into_def assign_get split: if_splits sum.splits)

lemma put_all_free:
  "roster_free own gs \<Longrightarrow> own \<notin> set srcs \<Longrightarrow> roster_free own (fold (\<lambda>i. put_sources srcs (f i)) xs gs)"
  by (induction xs arbitrary: gs) (auto simp: put_sources_def Let_def intro: roster_put)

lemma put_all_get:
  "amap_get (fold (\<lambda>i. put_sources srcs (f i)) xs gs) ga =
     (if ga \<noteq> InvalidAddr \<and> ga \<in> (\<lambda>i. group_at (f i)) ` set xs then Some srcs else amap_get gs ga)"
  by (induction xs arbitrary: gs) (auto simp: put_sources_def Let_def)

text \<open>The table after the control groups, and after the publishers.\<close>

lemma ssm_sources_cases:
  assumes "buildSSMGroupSources R G cfg = Inr gs"
  obtains gs0 where "own_source cfg \<noteq> InvalidAddr \<Longrightarrow> roster_free (own_source cfg) gs0"
    and "\<And>ga. ga \<notin> (\<lambda>i. group_at (G (MCPrefix cfg) (MCGroupID cfg) i))
             ` {GroupBeacon, GroupSubtreeDataAnnounce, GroupSubtreeGroupAnnounce, GroupBlockBroadcast} \<Longrightarrow> amap_get gs0 ga = None"
    and "SSMPublishersStatic cfg = [] \<Longrightarrow> gs = gs0"
    and "\<And>cur. SSMPublishersStatic cfg \<noteq> [] \<Longrightarrow> rs_Start R (SSMPublishersStatic cfg) = Inr cur \<Longrightarrow>
      gs = (let srcs = fst (excludeOwnSource cur (own_source cfg));
          gs1 = fold (\<lambda>idx. put_sources srcs (G (MCPrefix cfg) (MCGroupID cfg) (of_nat idx))) [0..<unat (NumGroups cfg)] gs0
        in if BEEFEnabled cfg then fold (\<lambda>i. put_sources srcs (G (MCPrefix cfg) (MCGroupID cfg) i)) (beef_band cfg) gs1 else gs1)"
    and "SSMPublishersStatic cfg \<noteq> [] \<Longrightarrow> \<exists>cur. rs_Start R (SSMPublishersStatic cfg) = Inr cur"
proof -
  let ?own = "own_source cfg" and ?g = "G (MCPrefix cfg) (MCGroupID cfg)"
  from assms obtain a b gs0 where
    r: "resolve_into R ?own (SSMBootstrapBeacon cfg) [?g GroupBeacon] [] = Inr a"
      "resolve_into R ?own (SSMBootstrapSubtreeAnn cfg) [?g GroupSubtreeDataAnnounce, ?g GroupSubtreeGroupAnnounce] a = Inr b"
      "resolve_into R ?own (SSMBootstrapManifest cfg) [?g GroupBlockBroadcast] b = Inr gs0"
    and last: "(if SSMPublishersStatic cfg = [] then Inr gs0
        else case rs_Start R (SSMPublishersStatic cfg) of
          Inl e \<Rightarrow> Inl ''publishers-static''
        | Inr cur \<Rightarrow>
            (let srcs = fst (excludeOwnSource cur ?own);
                 gs = fold (\<lambda>idx. put_sources srcs (?g (of_nat idx))) [0..<unat (NumGroups cfg)] gs0
             in Inr (if BEEFEnabled cfg then fold (\<lambda>i. put_sources srcs (?g i)) (beef_band cfg) gs else gs))) = Inr gs"
    unfolding buildSSMGroupSources_def Let_def then_ok_Inr by blast
  show thesis
  proof (rule that [of gs0])
    have "roster_free ?own []" by (simp add: roster_free_def)
    then show "roster_free ?own gs0" if "?own \<noteq> InvalidAddr"
      using r that by (blast intro: resolve_free)
    show "amap_get gs0 ga = None"
      if "ga \<notin> (\<lambda>i. group_at (?g i)) ` {GroupBeacon, GroupSubtreeDataAnnounce, GroupSubtreeGroupAnnounce, GroupBlockBroadcast}" for ga
      using that resolve_get [OF r(1), of ga] resolve_get [OF r(2), of ga] resolve_get [OF r(3), of ga] by simp
  qed (use last in \<open>auto simp: Let_def split: sum.splits\<close>)
qed

lemma publisher_sources:
  assumes "buildSSMGroupSources R G cfg = Inr gs" and "SSMPublishersStatic cfg \<noteq> []" and "rs_Start R (SSMPublishersStatic cfg) = Inr cur"
    and "i < unat (NumGroups cfg)" and "ga = group_at (G (MCPrefix cfg) (MCGroupID cfg) (of_nat i))" and "ga \<noteq> InvalidAddr"
  shows "amap_get gs ga = Some (fst (excludeOwnSource cur (own_source cfg)))"
  using assms(1)
proof (rule ssm_sources_cases)
  fix gs0
  assume "\<And>cur. SSMPublishersStatic cfg \<noteq> [] \<Longrightarrow> rs_Start R (SSMPublishersStatic cfg) = Inr cur \<Longrightarrow>
      gs = (let srcs = fst (excludeOwnSource cur (own_source cfg));
          gs1 = fold (\<lambda>idx. put_sources srcs (G (MCPrefix cfg) (MCGroupID cfg) (of_nat idx))) [0..<unat (NumGroups cfg)] gs0
        in if BEEFEnabled cfg then fold (\<lambda>i. put_sources srcs (G (MCPrefix cfg) (MCGroupID cfg) i)) (beef_band cfg) gs1 else gs1)"
  from this [OF assms(2,3)] assms(4-6) show ?thesis by (auto simp: put_all_get Let_def)
qed

lemma ssm_sources_free:
  assumes "buildSSMGroupSources R G cfg = Inr gs" and "own_source cfg \<noteq> InvalidAddr"
  shows "roster_free (own_source cfg) gs"
  using assms(1)
proof (rule ssm_sources_cases)
  fix gs0
  let ?own = "own_source cfg"
  assume free: "?own \<noteq> InvalidAddr \<Longrightarrow> roster_free ?own gs0" and none: "SSMPublishersStatic cfg = [] \<Longrightarrow> gs = gs0"
    and some: "\<And>cur. SSMPublishersStatic cfg \<noteq> [] \<Longrightarrow> rs_Start R (SSMPublishersStatic cfg) = Inr cur \<Longrightarrow>
      gs = (let srcs = fst (excludeOwnSource cur ?own);
          gs1 = fold (\<lambda>idx. put_sources srcs (G (MCPrefix cfg) (MCGroupID cfg) (of_nat idx))) [0..<unat (NumGroups cfg)] gs0
        in if BEEFEnabled cfg then fold (\<lambda>i. put_sources srcs (G (MCPrefix cfg) (MCGroupID cfg) i)) (beef_band cfg) gs1 else gs1)"
    and start: "SSMPublishersStatic cfg \<noteq> [] \<Longrightarrow> \<exists>cur. rs_Start R (SSMPublishersStatic cfg) = Inr cur"
  show "roster_free ?own gs"
  proof (cases "SSMPublishersStatic cfg = []")
    case False
    then obtain cur where cur: "rs_Start R (SSMPublishersStatic cfg) = Inr cur" using start by blast
    have "?own \<notin> set (fst (excludeOwnSource cur ?own))" using assms(2) by (simp add: fst_excludeOwnSource)
    with free [OF assms(2)] show ?thesis unfolding some [OF False cur] Let_def by (simp add: put_all_free)
  qed (use none free assms(2) in simp)
qed

lemma joins_asked:
  assumes "(ga, srcs) \<in> set (snd (joinAll join w first))"
  shows "ga \<noteq> InvalidAddr"
    and "srcs = (case w_sources w of None \<Rightarrow> [] | Some m \<Rightarrow> (case amap_get m ga of None \<Rightarrow> [] | Some l \<Rightarrow> l))"
proof -
  have "ga \<noteq> InvalidAddr" if "(ga, srcs) \<in> set (snd (join_groups join m first grps))" for m grps
    using that
  proof (induction grps)
    case (Cons g grps)
    then show ?case
      using want_join_valid [of m g] by (auto simp: join_groups_step Let_def split: prod.splits if_splits)
  qed simp
  then show "ga \<noteq> InvalidAddr" using assms by (simp add: joinAll_def)
  show "srcs = (case w_sources w of None \<Rightarrow> [] | Some m \<Rightarrow> (case amap_get m ga of None \<Rightarrow> [] | Some l \<Rightarrow> l))"
    using assms join_groups_sub by (fastforce simp: joinAll_def want_join_def Let_def)
qed

lemma series_precreated: "set (series (rec_PreCreateSources xs r)) = set xs \<union> set (series r)"
  by (induction xs arbitrary: r) (auto simp: rec_PreCreateSources_def add_series_def)

text \<open>What \<^verbatim>\<open>shard.GroupAddr\<close> is relied on for: 16-byte addresses that differ where the indices differ.\<close>

definition group_addr_ok :: "group_addr \<Rightarrow> bool" where
  "group_addr_ok G \<longleftrightarrow> (\<forall>p g. (\<forall>i. length (G p g i) = 16) \<and> inj (G p g))"

lemma no_publisher_sources:
  assumes "buildSSMGroupSources R G cfg = Inr gs" and "SSMPublishersStatic cfg = []" and "group_addr_ok G" and "ok_shards cfg"
    and "i < unat (NumGroups cfg)"
  shows "amap_get gs (Addr6 (G (MCPrefix cfg) (MCGroupID cfg) (of_nat i))) = None"
  using assms(1)
proof (rule ssm_sources_cases)
  fix gs0
  let ?g = "G (MCPrefix cfg) (MCGroupID cfg)"
  have "unat (ShardBits cfg) \<le> 12" using assms(4) by (simp add: ok_shards_def word_le_nat_alt)
  then have "(2::nat) ^ unat (ShardBits cfg) \<le> 2 ^ 12" by (intro power_increasing) auto
  with assms(4,5) have i: "i < 4096" by (simp add: ok_shards_def)
  have at: "group_at (?g j) = Addr6 (?g j)" for j using assms(3) by (simp add: group_addr_ok_def To16_def AddrFromSlice_def)
  have "(of_nat i :: u16) \<noteq> j" if "j \<in> {GroupBeacon, GroupSubtreeDataAnnounce, GroupSubtreeGroupAnnounce, GroupBlockBroadcast}" for j
  proof
    assume "(of_nat i :: u16) = j"
    then have "unat (of_nat i :: u16) = unat j" by simp
    with i that show False
      by (auto simp: unsigned_of_nat take_bit_nat_eq_self GroupBeacon_def GroupSubtreeDataAnnounce_def GroupSubtreeGroupAnnounce_def GroupBlockBroadcast_def)
  qed
  then have "Addr6 (?g (of_nat i)) \<notin> (\<lambda>i. group_at (?g i))
      ` {GroupBeacon, GroupSubtreeDataAnnounce, GroupSubtreeGroupAnnounce, GroupBlockBroadcast}"
    using inj_eq [of ?g] assms(3) unfolding at group_addr_ok_def by auto
  moreover assume "\<And>ga. ga \<notin> (\<lambda>i. group_at (?g i))
             ` {GroupBeacon, GroupSubtreeDataAnnounce, GroupSubtreeGroupAnnounce, GroupBlockBroadcast} \<Longrightarrow> amap_get gs0 ga = None"
    and "SSMPublishersStatic cfg = [] \<Longrightarrow> gs = gs0"
  ultimately show ?thesis using assms(2) by simp
qed

section \<open>Lemmas: the advertised address\<close>

lemma parse_lengths: "parseIPv4 s = Some b \<Longrightarrow> length b = 4" "parseIPv6 s = Some b \<Longrightarrow> length b = 16"
  by (auto simp: parseIPv4_def parseIPv6_def split: option.splits list.splits if_splits prod.splits)

lemma ParseIP_length: "ParseIP s = Some ip \<Longrightarrow> length ip = 16"
  by (auto simp: ParseIP_def ParseAddr_def parse_lengths split: Addr.splits if_splits list.splits option.splits)

lemma picked_length:
  assumes "pickBeaconNACKAddr expl addrs = Inr ip"
  shows "length ip = 16"
proof (cases "expl = []")
  case True
  with assms obtain as x xs where as: "filter (\<lambda>a. case a of None \<Rightarrow> False | Some ip \<Rightarrow> To4 ip = None \<and> IsGlobalUnicast6 ip) as = Some x # xs"
    and ip: "ip = (case To16 x of Some b \<Rightarrow> b | None \<Rightarrow> [])"
    by (auto simp: pickBeaconNACKAddr_def split: sum.splits list.splits option.splits)
  from as have "Some x \<in> set (filter (\<lambda>a. case a of None \<Rightarrow> False | Some ip \<Rightarrow> To4 ip = None \<and> IsGlobalUnicast6 ip) as)" by simp
  then show ?thesis by (auto simp: ip IsGlobalUnicast6_def To16_def)
qed (use assms in \<open>auto simp: pickBeaconNACKAddr_def To16_def dest!: ParseIP_length split: option.splits\<close>)

lemma hashInstanceID_nonzero: "hashInstanceID h \<noteq> 0"
  by (simp add: hashInstanceID_def Let_def)

lemma beacon_flag_bits:
  "beacon_flags cfg AND FlagUnicastRetransmit \<noteq> 0 \<longleftrightarrow> BeaconFlagsUnicast cfg"
  "beacon_flags cfg AND FlagMulticastRetransmit \<noteq> 0 \<longleftrightarrow> BeaconFlagsMulticast cfg"
  "beacon_flags cfg AND FlagDraining \<noteq> 0 \<longleftrightarrow> BeaconFlagsDraining cfg"
  "beacon_flags cfg AND FlagHasParent \<noteq> 0 \<longleftrightarrow> ProxyEnabled cfg"
  by (simp_all add: beacon_flags_def Let_def FlagUnicastRetransmit_def FlagMulticastRetransmit_def FlagDraining_def FlagHasParent_def)

lemma open_egress_src: "rt_unicastSrc (snd (open_egress opens ifs r)) = rt_unicastSrc r"
  by (induction ifs arbitrary: r) (auto split: option.splits)

lemma built_unicast_source:
  assumes "Retransmitter_Open opens openUC (build_retransmitter cfg eng beef dedupB nackIP) = (None, r)"
  shows "rt_unicastSrc r = Some nackIP"
  using assms open_egress_src [of opens _ "build_retransmitter cfg eng beef dedupB nackIP"]
  by (auto simp: Retransmitter_Open_def build_retransmitter_def SetMulticastLoop_def SetUnicastSource_def
      split: prod.splits option.splits dest!: arg_cong [of _ "(_, _)" snd])

section \<open>Properties\<close>


text \<open>
  C37: When source-specific mode falls back to any-source joins.  A data group is joined without a source list, which asks for
  every source, exactly if no static publishers are configured (whatever other bootstrap list satisfied the
  configuration check) or if the configured publishers resolve to nothing but the endpoint's own address.
\<close>

theorem ssm_any_source_fallback:
  assumes "run_setup F G eng beef R S se cfg = Inr ep" and "SourceMode cfg = ''ssm''" and "group_addr_ok G" and "ok_shards cfg"
    and "w \<in> set (ep_workers ep)" and "i < unat (NumGroups cfg)"
    and "(Addr6 (G (MCPrefix cfg) (MCGroupID cfg) (of_nat i)), srcs) \<in> set (snd (joinAll join w first))"
  shows "srcs = [] \<longleftrightarrow> SSMPublishersStatic cfg = []
     \<or> (\<exists>cur. rs_Start R (SSMPublishersStatic cfg) = Inr cur \<and> (\<forall>a \<in> set cur. own_source cfg \<noteq> InvalidAddr \<and> a = own_source cfg))"
proof -
  let ?ga = "Addr6 (G (MCPrefix cfg) (MCGroupID cfg) (of_nat i))"
  from assms(1) obtain fb nackIP gs where parts: "wired_parts F G eng beef R S se cfg ep fb nackIP gs" by (rule run_setup_parts)
  then obtain m where m: "gs = Some m" "buildSSMGroupSources R G cfg = Inr m"
    using assms(2) by (auto simp: wired_parts_def)
  have w: "w_sources w = Some m"
    using assms(5) parts worker_parts(3) m(1) unfolding wired_parts_def by metis
  have at: "?ga = group_at (G (MCPrefix cfg) (MCGroupID cfg) (of_nat i))"
    using assms(3) by (simp add: group_addr_ok_def To16_def AddrFromSlice_def)
  note asked = joins_asked(2) [OF assms(7), unfolded w]
  show ?thesis
  proof (cases "SSMPublishersStatic cfg = []")
    case True
    then show ?thesis using asked no_publisher_sources [OF m(2) True assms(3,4,6)] by simp
  next
    case False
    from m(2) obtain cur where cur: "rs_Start R (SSMPublishersStatic cfg) = Inr cur"
      by (rule ssm_sources_cases) (use False in blast)
    show ?thesis
      using asked publisher_sources [OF m(2) False cur assms(6) at] False
      by (auto simp: cur fst_excludeOwnSource filter_empty_conv)
  qed
qed


section \<open>Witnesses\<close>

lemma run_setup_ok:
  assumes "\<not> isl (metrics_New (se_metrics se) (InstanceID cfg) (NumWorkers cfg) (OTLPEndpoint cfg))" "se_newPlane se = None" "se_openFrames se = Inr fb" "\<And>n. se_iface se n"
    "pickBeaconNACKAddr (BeaconNACKAddr cfg) (se_addrs se) = Inr nackIP" "\<And>n. se_openEgress se n = None" "se_openUnicast se = None"
    "SourceMode cfg = ''ssm''" "buildSSMGroupSources R G cfg = Inr m" "BeaconGroupPrefixes S (ControlGroupCompat cfg) ''ssm'' (BeaconScope cfg) = Inr ps"
  shows "\<exists>ep. run_setup F G eng beef R S se cfg = Inr ep"
proof -
  have "fst (open_egress (se_openEgress se) ifs r) = None" for ifs and r :: "'a Retransmitter"
    using assms(6) by (induction ifs arbitrary: r) auto
  then have "\<exists>rt. Retransmitter_Open (se_openEgress se) (se_openUnicast se) r = (None, rt)" for r :: "'a Retransmitter"
    using assms(7) by (cases "open_egress (se_openEgress se) (rt_ifaces r) r") (simp add: Retransmitter_Open_def, metis fst_conv option.simps(4))
  then obtain rt where "Retransmitter_Open (se_openEgress se) (se_openUnicast se)
      (build_retransmitter cfg eng beef (dedup_backend cfg fb (se_openRedis se)) nackIP) = (None, rt)" by blast
  with assms show ?thesis by (simp add: run_setup_def then_ok_def Let_def list_all_iff)
qed

definition ex_ssm_config :: "string list \<Rightarrow> Config" where
  "ex_ssm_config pubs = (flag_defaults ex_load_env)\<lparr>ShardBits := 2, NumGroups := 4, MCPrefix := 0xFF35, MCGroupID := 0xB,
     SourceMode := ''ssm'', BindSource := ''fd00::1'', SSMPublishersStatic := pubs, EgressIfaces := [''eth0''],
     BeaconScopeByte := 0x05, BeaconPreference := 128, BeaconNACKAddr := ''::2''\<rparr>"

definition ex_resolver :: resolver where
  "ex_resolver = \<lparr>rs_Start = (\<lambda>entries. Inr (map ParseAddr entries)), rs_copies = False\<rparr>"

definition ex_engine :: engine where
  "ex_engine = ref_engine\<lparr>Prefix := 0xFF35, Addr_at := (\<lambda>i port. \<lparr>uIP = ref_group_addr 0xFF35 0xB (ucast i), uPort = port\<rparr>)\<rparr>"

definition ex_setup :: "(bytes, bytes) amap setup_env" where
  "ex_setup = \<lparr>se_metrics = ex_metrics_env, se_newPlane = None, se_openFrames = Inr (map_backend True), se_openRedis = Inl ''none'',
     se_iface = (\<lambda>_. True), se_addrs = Inr [], se_openEgress = (\<lambda>_. None), se_openUnicast = None, se_hostname = Some ''node''\<rparr>"

definition ex_run_setup :: "string list \<Rightarrow> string + ((bytes, bytes) amap, ((bytes, bytes) amap, nat) world) endpoint" where
  "ex_run_setup pubs = run_setup ref_frame_pkg ref_group_addr ex_engine (\<lambda>_. 0) ex_resolver ref_scopes ex_setup (ex_ssm_config pubs)"

lemma ex_ssm_fields:
  "SourceMode (ex_ssm_config pubs) = ''ssm''" "SSMPublishersStatic (ex_ssm_config pubs) = pubs" "NumGroups (ex_ssm_config pubs) = 4"
  "MCPrefix (ex_ssm_config pubs) = 0xFF35" "MCGroupID (ex_ssm_config pubs) = 0xB" "BindSource (ex_ssm_config pubs) = ''fd00::1''"
  "BeaconNACKAddr (ex_ssm_config pubs) = ''::2''" "ShardBits (ex_ssm_config pubs) = 2"
  "BeaconScopeByte (ex_ssm_config pubs) = 0x05" "BeaconPreference (ex_ssm_config pubs) = 128"
  by (simp_all add: ex_ssm_config_def)

lemma ex_default_fields:
  "ControlGroupCompat (ex_ssm_config pubs) = ''asm-only''" "BeaconScope (ex_ssm_config pubs) = ''site''"
  "SSMBootstrapBeacon (ex_ssm_config pubs) = []" "SSMBootstrapSubtreeAnn (ex_ssm_config pubs) = []"
  "SSMBootstrapManifest (ex_ssm_config pubs) = []" "BEEFShardBits (ex_ssm_config pubs) = 0" "BeaconTier (ex_ssm_config pubs) = 0"
  "BeaconInterval (ex_ssm_config pubs) = 60 * go_second" "BeaconEnabled (ex_ssm_config pubs)" "NACKPort (ex_ssm_config pubs) = 9300"
  by (simp_all add: ex_ssm_config_def flag_defaults_def repair_defaults_def serve_defaults_def RepairConfig.defs ServeConfig.defs
      Config.defs ex_load_env_def envStr_def envInt_def env_parsed_def envBool_def envDuration_def control_group_names)

lemma ex_addr: "ParseAddr ''fd00::1'' = Addr6 ([0xFD] @ replicate 14 0 @ [1])" "ParseAddr ''fd00::2'' = Addr6 ([0xFD] @ replicate 14 0 @ [2])"
  by code_simp+

lemma ex_group_addr: "group_addr_ok ref_group_addr"
proof -
  have "PutUint16 i = PutUint16 j \<Longrightarrow> i = j" for i j
    using Uint16_PutUint16 [of i "[]"] Uint16_PutUint16 [of j "[]"] by simp
  then show ?thesis by (auto simp: group_addr_ok_def ref_group_addr_def intro!: injI)
qed

lemma ex_group_at [simp]: "group_at (ref_group_addr p g i) = Addr6 (ref_group_addr p g i)"
  using ex_group_addr by (simp add: group_addr_ok_def To16_def AddrFromSlice_def)

lemma ex_setup_ok: "\<exists>ep. ex_run_setup pubs = Inr ep"
proof -
  have "\<exists>m. buildSSMGroupSources ex_resolver ref_group_addr (ex_ssm_config pubs) = Inr m"
    by (simp add: buildSSMGroupSources_def resolve_into_def then_ok_def Let_def ex_default_fields ex_resolver_def)
  then obtain m where "buildSSMGroupSources ex_resolver ref_group_addr (ex_ssm_config pubs) = Inr m" by blast
  moreover have "pickBeaconNACKAddr ''::2'' (Inr []) = Inr (replicate 15 0 @ [2])" by code_simp
  moreover have "BeaconGroupPrefixes ref_scopes ''asm-only'' ''ssm'' ''site'' = Inr [0xFF05]" by code_simp
  ultimately show ?thesis
    unfolding ex_run_setup_def by (intro run_setup_ok) (auto simp: ex_setup_def ex_ssm_fields ex_default_fields ex_metrics_up)
qed

lemma ex_ssm_ok: "ok_shards (ex_ssm_config pubs)" "ok_beacon ref_scopes (ex_ssm_config pubs)"
proof -
  have "\<exists>ps. BeaconGroupPrefixes ref_scopes ''asm-only'' ''ssm'' ''site'' = Inr ps"
    by (simp add: BeaconGroupPrefixes_def beaconScopeNames_def prefixes_asm)
  moreover have "ParseIP ''::2'' = Some (replicate 15 0 @ [2])" "To4 (replicate 15 0 @ [2]) = None" by code_simp+
  then have "\<exists>ip. ParseIP ''::2'' = Some ip \<and> To4 ip = None" by blast
  ultimately show "ok_beacon ref_scopes (ex_ssm_config pubs)"
    by (simp add: ok_beacon_def ex_ssm_fields ex_default_fields scope_ok_def scope_byte_def go_second_def)
qed (simp add: ok_shards_def ex_ssm_fields ex_default_fields)

lemma ex_groups_ok: "g \<in> set (buildGroups ref_group_addr ex_engine (ex_ssm_config pubs)) \<Longrightarrow> group_ok g"
proof -
  have "length (ref_group_addr p g i) = 16" for p g i by (simp add: ref_group_addr_def)
  then show "g \<in> set (buildGroups ref_group_addr ex_engine (ex_ssm_config pubs)) \<Longrightarrow> group_ok g"
    by (auto simp: buildGroups_def group_ok_def ex_engine_def split: if_splits)
qed

lemma ex_worker_joins:
  assumes "ex_run_setup pubs = Inr ep"
  shows "\<exists>w srcs. w \<in> set (ep_workers ep) \<and> (Addr6 (ref_group_addr 0xFF35 0xB 0), srcs) \<in> set (snd (joinAll (\<lambda>_ _. None) w False))"
proof -
  from assms obtain fb nackIP gs where parts: "wired_parts ref_frame_pkg ref_group_addr ex_engine (\<lambda>_. 0) ex_resolver ref_scopes ex_setup
      (ex_ssm_config pubs) ep fb nackIP gs"
    unfolding ex_run_setup_def by (rule run_setup_parts)
  let ?grp = "Addr_at ex_engine (of_nat 0) (ListenPort (ex_ssm_config pubs))"
  have "?grp \<in> set (buildGroups ref_group_addr ex_engine (ex_ssm_config pubs))"
    unfolding buildGroups_def ex_ssm_fields set_append set_map by (rule UnI1) (rule imageI, simp)
  moreover have ws: "ep_workers ep = build_workers (ex_ssm_config pubs) fb (if MCJoinEnabled (ex_ssm_config pubs)
      then Some (MCIface (ex_ssm_config pubs)) else None) (buildGroups ref_group_addr ex_engine (ex_ssm_config pubs)) gs"
    using parts by (simp only: wired_parts_def)
  ultimately obtain w where w: "w \<in> set (ep_workers ep)" "?grp \<in> set (w_groups w)"
    unfolding ws using workers_cover by blast
  with worker_parts(4) [OF w(1) [unfolded ws]] ex_groups_ok have "list_all group_ok (w_groups w)"
    unfolding list_all_iff by blast
  then have "snd (joinAll (\<lambda>_ _. None) w False) = map (want_join (w_sources w)) (w_groups w)"
    by (simp add: joinAll_def join_groups_again)
  then have "want_join (w_sources w) ?grp \<in> set (snd (joinAll (\<lambda>_ _. None) w False))" using w(2) by simp
  moreover have "fst (want_join (w_sources w) ?grp) = Addr6 (ref_group_addr 0xFF35 0xB 0)"
    by (simp add: want_join_def Let_def ex_engine_def)
  ultimately have "(Addr6 (ref_group_addr 0xFF35 0xB 0), snd (want_join (w_sources w) ?grp)) \<in> set (snd (joinAll (\<lambda>_ _. None) w False))"
    by (metis prod.collapse)
  with w(1) show ?thesis by blast
qed


theorem ssm_any_source_fallback_witness:
  "\<exists>ep w. ex_run_setup [''fd00::1''] = Inr ep \<and> w \<in> set (ep_workers ep)
     \<and> (Addr6 (ref_group_addr 0xFF35 0xB 0), []) \<in> set (snd (joinAll (\<lambda>_ _. None) w False))"
proof -
  let ?pubs = "[''fd00::1'']"
  obtain ep where ep: "ex_run_setup ?pubs = Inr ep" using ex_setup_ok by blast
  from ex_worker_joins [OF ep] obtain w srcs where w: "w \<in> set (ep_workers ep)"
    "(Addr6 (ref_group_addr 0xFF35 0xB 0), srcs) \<in> set (snd (joinAll (\<lambda>_ _. None) w False))" by blast
  have own: "own_source (ex_ssm_config ?pubs) = Addr6 ([0xFD] @ replicate 14 0 @ [1])"
    by (simp add: own_source_def ex_ssm_fields ex_addr)
  have "srcs = []"
    using ssm_any_source_fallback [OF ep [unfolded ex_run_setup_def] ex_ssm_fields(1) ex_group_addr ex_ssm_ok(1) w(1), of 0 srcs] w(2)
    by (simp add: own ex_ssm_fields ex_resolver_def ex_addr)
  with ep w show ?thesis by blast
qed


end
