(* ===== verification/Server_Loop.thy ===== *)
theory Server_Loop
  imports Nack_Properties "HOL-Library.Multiset"
begin

text \<open>
  \<^verbatim>\<open>Run\<close> of \<^verbatim>\<open>src/server/server.go\<close>: the NACK socket, the read loop, the channel of pending requests and the pool of
  workers, as a step relation.  A request is processed in stages, one for each of the shared objects the handler locks: the
  stages of different workers interleave, and the clock is read inside a stage, as the limiter reads it under its lock.  Other
  goroutines share the store, the network, the recorder and the proxy queue, and may change them between any two steps.
\<close>

section \<open>The stages of a request\<close>

text \<open>
  The handler up to its first lock, the three limiter tiers before the lookup, and the rest.  The result of a stage is the next
  stage or the verdict; \<open>None\<close> is a run-time panic.
\<close>

datatype stage = AtRequest | AtIP | AtSequence | AtChain | AtLookup

definition nack_ip :: "UDPAddr option \<Rightarrow> bytes" where
  "nack_ip src = (case src of Some a \<Rightarrow> uIP a | None \<Rightarrow> IPv6unspecified)"

definition nack_hash :: "bytes \<Rightarrow> u64" where "nack_hash d = Uint64 (go_slice 8 16 d)"
definition nack_seq :: "bytes \<Rightarrow> u64" where "nack_seq d = Uint64 (go_slice 16 24 d)"

definition nack_seqKey :: "bytes \<Rightarrow> seqKey" where
  "nack_seqKey d = \<lparr>sk_hashKey = nack_hash d, sk_seqNum = nack_seq d\<rparr>"

definition nack_chainKey :: "bytes \<Rightarrow> UDPAddr option \<Rightarrow> chainKey" where
  "nack_chainKey d src = \<lparr>ck_ip = ipKey (nack_ip src), ck_hashKey = nack_hash d\<rparr>"

definition verdict_of :: "verdict \<times> 's \<Rightarrow> ((stage + verdict) \<times> 's) option" where
  "verdict_of r = Some (Inr (fst r), snd r)"

fun nack_stage :: "'l rate_pkg \<Rightarrow> (nat \<Rightarrow> nat) \<Rightarrow> frame_pkg \<Rightarrow> ('b, ('b, 'l, 'z) world_scheme) Server \<Rightarrow> int \<Rightarrow> stage \<Rightarrow> bytes
    \<Rightarrow> UDPAddr option \<Rightarrow> ('b, 'l, 'z) world_scheme \<Rightarrow> ((stage + verdict) \<times> ('b, 'l, 'z) world_scheme) option" where
  "nack_stage rp grow F sv now AtRequest d src s =
    (let s1 = io_rec rec_NACKRequest s
     in if validateNACK d \<noteq> None then Some (Inr Malformed, s1)
        else if Uint64 (go_slice 24 32 d) \<noteq> nack_seq d then Some (Inr RangeNACK, s1)
        else Some (Inl AtIP, s1))"
| "nack_stage rp grow F sv now AtIP d src s =
    (let (ok, ipl) = tb_Allow rp (IP_String (nack_ip src)) now (ipLimiter (lim s));
         s1 = s\<lparr>lim := (lim s)\<lparr>ipLimiter := ipl\<rparr>\<rparr>
     in if ok then Some (Inl AtSequence, s1) else verdict_of (limited sv LevelIP None src (nack_seq d) s1))"
| "nack_stage rp grow F sv now AtSequence d src s =
    (case allowLocked grow (nack_seqKey d) now (sequenceLimiter (lim s)) of
       None \<Rightarrow> None
     | Some (ok, sl) \<Rightarrow>
         (let s1 = s\<lparr>lim := (lim s)\<lparr>sequenceLimiter := sl\<rparr>\<rparr>
          in if ok then Some (Inl AtChain, s1)
             else verdict_of (limited sv LevelSequence (Some throttleBucketSequence) src (nack_seq d) s1)))"
| "nack_stage rp grow F sv now AtChain d src s =
    (case AllowChain grow (nack_ip src) (nack_hash d) now (lim s) of
       None \<Rightarrow> None
     | Some (ok, l) \<Rightarrow>
         if ok then Some (Inl AtLookup, s\<lparr>lim := l\<rparr>)
         else verdict_of (limited sv LevelChain (Some throttleBucketChain) src (nack_seq d) (s\<lparr>lim := l\<rparr>)))"
| "nack_stage rp grow F sv now AtLookup d src s =
    verdict_of (on_lookup rp F sv now (nack_ip src) (nack_proxied d) (nack_hash d) (nack_seq d) (go_slice 32 64 d) src s)"

section \<open>The pool\<close>

type_synonym nackRequest = "bytes \<times> UDPAddr option"

text \<open>
  The goroutine of \<^verbatim>\<open>Run\<close>: at the top of its loop, in \<^verbatim>\<open>ReadFrom\<close>, in the send on the channel, in \<^verbatim>\<open>wg.Wait\<close>
  after it closed the channel, or returned; and a worker.
\<close>

datatype reader = Top | Reading | Sending nackRequest | Waiting | Returned

datatype pool_worker = Idle | Busy stage nackRequest | Exited

record 'w pool =
  p_reader :: reader
  p_chan :: "nackRequest list"
  p_closed :: bool
  p_cancel :: bool
  p_workers :: "pool_worker list"
  p_now :: int
  p_world :: 'w

definition listen_host :: "('b, 's) Server \<Rightarrow> string" where
  "listen_host sv = (if sv_bindAddr sv \<noteq> [] then sv_bindAddr sv else ''::'')"

text \<open>The start of \<^verbatim>\<open>Run\<close>: \<open>listen host port\<close> is the outcome of opening the socket.\<close>

definition Server_Run :: "(string \<Rightarrow> int \<Rightarrow> string option) \<Rightarrow> ('b, ('b, 'l, 'z) world_scheme) Server \<Rightarrow> int
    \<Rightarrow> ('b, 'l, 'z) world_scheme \<Rightarrow> go_error + ('b, 'l, 'z) world_scheme pool" where
  "Server_Run listen sv now s =
    (case listen (listen_host sv) (sv_port sv) of
       Some e \<Rightarrow> Inl (Errorf (''server: listen: '' @ e))
     | None \<Rightarrow> Inr \<lparr>p_reader = Top, p_chan = [], p_closed = False, p_cancel = False,
         p_workers = replicate (nat (sv_workers sv)) Idle, p_now = now, p_world = io_rec rec_WorkerReady s\<rparr>)"

section \<open>Steps\<close>

datatype pool_event =
  Tick | Outside | Cancel | ReadStart | ReadFailed | BadSize | Received nackRequest | Queued nackRequest | Stop
| Taken nat nackRequest | Passed nat stage nackRequest int | Finished nat stage nackRequest int verdict
| Quit nat | Return

definition set_worker :: "nat \<Rightarrow> pool_worker \<Rightarrow> 'w pool \<Rightarrow> 'w pool" where
  "set_worker i w p = p\<lparr>p_workers := (p_workers p)[i := w]\<rparr>"

definition at_worker :: "'w pool \<Rightarrow> nat \<Rightarrow> pool_worker \<Rightarrow> bool" where
  "at_worker p i w \<longleftrightarrow> i < length (p_workers p) \<and> p_workers p ! i = w"

text \<open>\<^verbatim>\<open>close(requests)\<close>, then \<^verbatim>\<open>wg.Wait()\<close>.\<close>

definition close_and_wait :: "'w pool \<Rightarrow> 'w pool" where
  "close_and_wait p = p\<lparr>p_reader := Waiting, p_closed := True\<rparr>"

text \<open>
  \<open>timeout\<close> is a read that ran into its 100 ms deadline, \<open>read_error\<close> any other failed read.  A \<^verbatim>\<open>select\<close> takes any of its
  ready cases.
\<close>

inductive pool_step :: "'l rate_pkg \<Rightarrow> (nat \<Rightarrow> nat) \<Rightarrow> frame_pkg \<Rightarrow> ('b, ('b, 'l, 'z) world_scheme) Server \<Rightarrow> pool_event
    \<Rightarrow> ('b, 'l, 'z) world_scheme pool \<Rightarrow> ('b, 'l, 'z) world_scheme pool \<Rightarrow> bool"
  for rp grow F sv where
  tick: "p_now p \<le> t \<Longrightarrow> pool_step rp grow F sv Tick p (p\<lparr>p_now := t\<rparr>)"
| outside: "lim w = lim (p_world p) \<Longrightarrow> pool_step rp grow F sv Outside p (p\<lparr>p_world := w\<rparr>)"
| cancel: "\<not> p_cancel p \<Longrightarrow> pool_step rp grow F sv Cancel p (p\<lparr>p_cancel := True\<rparr>)"
| top_done: "p_reader p = Top \<Longrightarrow> p_cancel p \<Longrightarrow> pool_step rp grow F sv Stop p (close_and_wait p)"
| top_read: "p_reader p = Top \<Longrightarrow> \<not> p_cancel p \<Longrightarrow> pool_step rp grow F sv ReadStart p (p\<lparr>p_reader := Reading\<rparr>)"
| timeout: "p_reader p = Reading \<Longrightarrow> pool_step rp grow F sv ReadFailed p (p\<lparr>p_reader := Top\<rparr>)"
| read_error: "p_reader p = Reading \<Longrightarrow> \<not> p_cancel p \<Longrightarrow> pool_step rp grow F sv ReadFailed p (p\<lparr>p_reader := Top\<rparr>)"
| read_done: "p_reader p = Reading \<Longrightarrow> p_cancel p \<Longrightarrow> pool_step rp grow F sv Stop p (close_and_wait p)"
| bad_size: "p_reader p = Reading \<Longrightarrow> recv_nack pkt = None \<Longrightarrow> pool_step rp grow F sv BadSize p (p\<lparr>p_reader := Top\<rparr>)"
| received: "p_reader p = Reading \<Longrightarrow> recv_nack pkt = Some d \<Longrightarrow>
    pool_step rp grow F sv (Received (d, src)) p (p\<lparr>p_reader := Sending (d, src)\<rparr>)"
| queued: "p_reader p = Sending r \<Longrightarrow> length (p_chan p) < requests_cap \<Longrightarrow>
    pool_step rp grow F sv (Queued r) p (p\<lparr>p_reader := Top, p_chan := p_chan p @ [r]\<rparr>)"
| send_done: "p_reader p = Sending r \<Longrightarrow> p_cancel p \<Longrightarrow> pool_step rp grow F sv Stop p (close_and_wait p)"
| taken: "at_worker p i Idle \<Longrightarrow> p_chan p = r # rs \<Longrightarrow>
    pool_step rp grow F sv (Taken i r) p (set_worker i (Busy AtRequest r) (p\<lparr>p_chan := rs\<rparr>))"
| passed: "at_worker p i (Busy ph (d, src)) \<Longrightarrow>
    nack_stage rp grow F sv (p_now p) ph d src (p_world p) = Some (Inl ph', w) \<Longrightarrow>
    pool_step rp grow F sv (Passed i ph (d, src) (p_now p)) p (set_worker i (Busy ph' (d, src)) (p\<lparr>p_world := w\<rparr>))"
| finished: "at_worker p i (Busy ph (d, src)) \<Longrightarrow>
    nack_stage rp grow F sv (p_now p) ph d src (p_world p) = Some (Inr v, w) \<Longrightarrow>
    pool_step rp grow F sv (Finished i ph (d, src) (p_now p) v) p (set_worker i Idle (p\<lparr>p_world := w\<rparr>))"
| quit_done: "at_worker p i Idle \<Longrightarrow> p_cancel p \<Longrightarrow> pool_step rp grow F sv (Quit i) p (set_worker i Exited p)"
| quit_closed: "at_worker p i Idle \<Longrightarrow> p_chan p = [] \<Longrightarrow> p_closed p \<Longrightarrow> pool_step rp grow F sv (Quit i) p (set_worker i Exited p)"
| return: "p_reader p = Waiting \<Longrightarrow> list_all (\<lambda>w. w = Exited) (p_workers p) \<Longrightarrow>
    pool_step rp grow F sv Return p (p\<lparr>p_reader := Returned, p_world := io_rec rec_WorkerDone (p_world p)\<rparr>)"

inductive pool_run :: "'l rate_pkg \<Rightarrow> (nat \<Rightarrow> nat) \<Rightarrow> frame_pkg \<Rightarrow> ('b, ('b, 'l, 'z) world_scheme) Server
    \<Rightarrow> ('b, 'l, 'z) world_scheme pool \<Rightarrow> pool_event list \<Rightarrow> ('b, 'l, 'z) world_scheme pool \<Rightarrow> bool"
  for rp grow F sv p0 where
  start: "pool_run rp grow F sv p0 [] p0"
| step: "pool_run rp grow F sv p0 es p \<Longrightarrow> pool_step rp grow F sv e p p' \<Longrightarrow> pool_run rp grow F sv p0 (es @ [e]) p'"

declare pool_step.intros [intro]

section \<open>Lemmas: stages and the whole handler\<close>

text \<open>The stages in their order, and one request run through the stages that are left, with the clock readings \<open>tm\<close>.\<close>

fun stage_left :: "stage \<Rightarrow> nat" where
  "stage_left AtRequest = 5"
| "stage_left AtIP = 4"
| "stage_left AtSequence = 3"
| "stage_left AtChain = 2"
| "stage_left AtLookup = 1"

lemma nack_stage_left: "nack_stage rp grow F sv now ph d src s = Some (Inl ph', s') \<Longrightarrow> stage_left ph = Suc (stage_left ph')"
  by (cases ph) (auto simp: verdict_of_def Let_def split: if_splits option.splits prod.splits)

function nack_rest :: "'l rate_pkg \<Rightarrow> (nat \<Rightarrow> nat) \<Rightarrow> frame_pkg \<Rightarrow> ('b, ('b, 'l, 'z) world_scheme) Server \<Rightarrow> (stage \<Rightarrow> int) \<Rightarrow> stage
    \<Rightarrow> bytes \<Rightarrow> UDPAddr option \<Rightarrow> ('b, 'l, 'z) world_scheme \<Rightarrow> (verdict \<times> ('b, 'l, 'z) world_scheme) option" where
  "nack_rest rp grow F sv tm ph d src s =
    (case nack_stage rp grow F sv (tm ph) ph d src s of
       None \<Rightarrow> None
     | Some (Inr v, s') \<Rightarrow> Some (v, s')
     | Some (Inl ph', s') \<Rightarrow> nack_rest rp grow F sv tm ph' d src s')"
  by pat_completeness auto
termination
  by (relation "measure (\<lambda>(rp, grow, F, sv, tm, ph, d, src, s). stage_left ph)") (auto dest: nack_stage_left)

declare nack_rest.simps [simp del]

definition clock_of :: "(stage \<Rightarrow> int) \<Rightarrow> clock" where
  "clock_of tm = \<lparr>t_IP = tm AtIP, t_Seq = tm AtSequence, t_Chain = tm AtChain, t_Group = tm AtLookup\<rparr>"

text \<open>Undisturbed, the stages are \<open>processNACK\<close>.\<close>

lemma nack_rest_processNACK:
  "nack_rest rp grow F sv tm AtRequest d src s = processNACK rp grow F sv (clock_of tm) d src s"
  by (simp add: nack_rest.simps processNACK_def Limiter_Allow_def clock_of_def verdict_of_def Let_def nack_seqKey_def
      nack_hash_def nack_seq_def nack_ip_def io_rec_def split: option.splits prod.splits)

section \<open>Lemmas: the window tiers under interleaving\<close>

text \<open>\<open>tracks\<close>: up to \<open>now\<close>, the limiter admitted \<open>adm k\<close> for the key \<open>k\<close>, never more than a window allows.\<close>

context key_window
begin

definition tracks :: "int \<Rightarrow> int \<Rightarrow> int \<Rightarrow> 's \<Rightarrow> ('k \<Rightarrow> int list) \<Rightarrow> bool" where
  "tracks w m now s adm \<longleftrightarrow> inv w m s \<and> (\<forall>k. \<forall>t \<in> set (hist s k). t \<le> now) \<and> agree w now s adm
     \<and> (\<forall>k. win_bounded w m (adm k) \<and> (\<forall>t \<in> set (adm k). t \<le> now))"

lemma tracks_new: "inv w m s \<Longrightarrow> (\<And>k. hist s k = []) \<Longrightarrow> tracks w m now s (\<lambda>_. [])"
  by (simp add: tracks_def agree_def win_bounded_def)

lemma tracks_later: "tracks w m now s adm \<Longrightarrow> now \<le> now' \<Longrightarrow> tracks w m now' s adm"
  unfolding tracks_def using agree_later order_trans by blast

lemma tracks_allow:
  assumes "tracks w m now s adm"
  shows "\<exists>b s'. allow k now s = Some (b, s') \<and> tracks w m now s' (if b then adm(k := adm k @ [now]) else adm)"
proof -
  have t: "inv w m s" "\<forall>k. \<forall>t \<in> set (hist s k). t \<le> now" "agree w now s adm"
    "win_bounded w m (adm k)" "\<And>t. t \<in> set (adm k) \<Longrightarrow> t \<le> now" for k
    using assms by (auto simp: tracks_def)
  obtain b s' adm' where st: "allow k now s = Some (b, s')" "inv w m s'" "\<forall>k. \<forall>t \<in> set (hist s' k). t \<le> now"
    "ref_allow w m k now adm = (b, adm')" "agree w now s' adm'"
    using agree_step [where k = k, OF t(1-3)] by blast
  have b: "adm' = (if b then adm(k := adm k @ [now]) else adm)"
    "b \<Longrightarrow> win_bounded w m (adm k @ [now])"
    using st(4) win_bounded_snoc [of w m "adm k" now] t(4) [of k] t(5) [of _ k] by (auto simp: ref_allow_def Let_def split: if_splits)
  with st t(4,5) show ?thesis by (auto simp: tracks_def)
qed

end

lemma limited_lim: "lim (snd (limited sv lv bk src n s)) = lim s"
  using limited_sends [OF prod.collapse [symmetric], of sv lv bk src n s] io_more_pq pworld_more_lim by metis

text \<open>One stage never panics; only the sequence tier touches the sequence windows, only the chain tier the chain windows.\<close>

lemma stage_tracks:
  assumes "nack_wired sv F ga r pcfg"
    and "sw.tracks w m now (sequenceLimiter (lim s)) A" and "sw.tracks w' m' now (chainLimiter (lim s)) B"
  obtains res s' where "nack_stage rp grow F sv now ph d src s = Some (res, s')"
    and "sw.tracks w m now (sequenceLimiter (lim s'))
      (if ph = AtSequence \<and> isl res then A(nack_seqKey d := A (nack_seqKey d) @ [now]) else A)"
    and "sw.tracks w' m' now (chainLimiter (lim s'))
      (if ph = AtChain \<and> isl res \<and> nack_hash d \<noteq> 0 then B(nack_chainKey d src := B (nack_chainKey d src) @ [now]) else B)"
proof (cases ph)
  case AtRequest
  have "\<exists>res. nack_stage rp grow F sv now ph d src s = Some (res, io_rec rec_NACKRequest s)"
    unfolding AtRequest by (simp add: Let_def)
  moreover have "lim (io_rec rec_NACKRequest s) = lim s" by (simp add: io_rec_def)
  ultimately show ?thesis using assms(2,3) that AtRequest by auto
next
  case AtIP
  obtain ok ipl where "tb_Allow rp (IP_String (nack_ip src)) now (ipLimiter (lim s)) = (ok, ipl)" by force
  with AtIP assms(2,3) that show ?thesis by (cases ok) (auto simp: verdict_of_def limited_lim Let_def)
next
  case AtSequence
  obtain b sl where "allowLocked grow (nack_seqKey d) now (sequenceLimiter (lim s)) = Some (b, sl)"
    "sw.tracks w m now sl (if b then A(nack_seqKey d := A (nack_seqKey d) @ [now]) else A)"
    using sw.tracks_allow [OF assms(2)] by blast
  with AtSequence assms(3) that show ?thesis by (cases b) (auto simp: verdict_of_def limited_lim Let_def)
next
  case AtChain
  obtain b cl where "allowLocked grow (nack_chainKey d src) now (chainLimiter (lim s)) = Some (b, cl)"
    "sw.tracks w' m' now cl (if b then B(nack_chainKey d src := B (nack_chainKey d src) @ [now]) else B)"
    using sw.tracks_allow [OF assms(3)] by blast
  with AtChain assms(2,3) that show ?thesis
    by (cases "nack_hash d = 0"; cases b) (auto simp: AllowChain_def verdict_of_def limited_lim nack_chainKey_def)
next
  case AtLookup
  obtain v s' where l: "on_lookup rp F sv now (nack_ip src) (nack_proxied d) (nack_hash d) (nack_seq d) (go_slice 32 64 d) src s = (v, s')"
    by force
  have "sv_retransmit sv = retransmitter_iface F ga r" "sv_proxy sv \<in> {None, Some (Enqueue pcfg)}"
    using assms(1) by (simp_all add: nack_wired_def)
  from nd.on_lookup_lim [OF this l] obtain gl where "lim s' = (lim s)\<lparr>groupLimiter := gl\<rparr>" by blast
  with l AtLookup assms(2,3) that show ?thesis by (auto simp: verdict_of_def)
qed

text \<open>When requests of a kind got past a stage, and the two window tiers along a run.\<close>

fun passed_at :: "stage \<Rightarrow> (nackRequest \<Rightarrow> bool) \<Rightarrow> pool_event \<Rightarrow> int list" where
  "passed_at ph P (Passed i ph' r t) = (if ph' = ph \<and> P r then [t] else [])"
| "passed_at ph P e = []"

definition seq_passes :: "pool_event list \<Rightarrow> seqKey \<Rightarrow> int list" where
  "seq_passes es k = concat (map (passed_at AtSequence (\<lambda>(d, src). nack_seqKey d = k)) es)"

definition chain_passes :: "pool_event list \<Rightarrow> chainKey \<Rightarrow> int list" where
  "chain_passes es k = concat (map (passed_at AtChain (\<lambda>(d, src). nack_hash d \<noteq> 0 \<and> nack_chainKey d src = k)) es)"

definition seqWin :: "RLConfig \<Rightarrow> int" where
  "seqWin cfg = (if SequenceWindow cfg \<le> 0 then go_minute else SequenceWindow cfg)"

definition tiers_track :: "RLConfig \<Rightarrow> pool_event list \<Rightarrow> ('b, 'l, 'z) world_scheme pool \<Rightarrow> bool" where
  "tiers_track cfg es p \<longleftrightarrow>
     sw.tracks (seqWin cfg) (SequenceMax cfg) (p_now p) (sequenceLimiter (lim (p_world p))) (seq_passes es)
   \<and> sw.tracks (chainWin cfg) (chainMax cfg) (p_now p) (chainLimiter (lim (p_world p))) (chain_passes es)"

lemma passes_snoc:
  "seq_passes (es @ [e]) = (\<lambda>k. seq_passes es k @ passed_at AtSequence (\<lambda>(d, src). nack_seqKey d = k) e)"
  "chain_passes (es @ [e]) = (\<lambda>k. chain_passes es k @ passed_at AtChain (\<lambda>(d, src). nack_hash d \<noteq> 0 \<and> nack_chainKey d src = k) e)"
  by (simp_all add: seq_passes_def chain_passes_def fun_eq_iff)

lemma passes_pass:
  "seq_passes (es @ [Passed i ph (d, src) t]) =
     (if ph = AtSequence then (seq_passes es)(nack_seqKey d := seq_passes es (nack_seqKey d) @ [t]) else seq_passes es)"
  "chain_passes (es @ [Passed i ph (d, src) t]) =
     (if ph = AtChain \<and> nack_hash d \<noteq> 0 then (chain_passes es)(nack_chainKey d src := chain_passes es (nack_chainKey d src) @ [t])
      else chain_passes es)"
  by (auto simp: passes_snoc fun_eq_iff)

lemma io_rec_lim [simp]: "lim (io_rec f s) = lim s"
  by (simp add: io_rec_def)

lemma tiers_track_start:
  assumes "lim s = newLimiter cfg" and "Server_Run listen sv t s = Inr p"
  shows "tiers_track cfg [] p"
proof -
  have p: "p_now p = t" "lim (p_world p) = newLimiter cfg"
    using assms by (auto simp: Server_Run_def split: option.splits)
  have "seq_passes [] = (\<lambda>_. [])" "chain_passes [] = (\<lambda>_. [])" by (simp_all add: seq_passes_def chain_passes_def fun_eq_iff)
  with p show ?thesis
    by (auto simp: tiers_track_def newLimiter_def Let_def seqWin_def new_hist intro!: sw.tracks_new new_lim_inv)
qed

lemma tiers_track_step:
  assumes "nack_wired sv F ga r pcfg" and "tiers_track cfg es p" and "pool_step rp grow F sv e p p'"
  shows "tiers_track cfg (es @ [e]) p'"
proof -
  note tr = assms(2) [unfolded tiers_track_def, THEN conjunct1] assms(2) [unfolded tiers_track_def, THEN conjunct2]
  show ?thesis
    using assms(3)
  proof cases
    case (tick t)
    then show ?thesis using sw.tracks_later [OF tr(1)] sw.tracks_later [OF tr(2)] by (simp add: tiers_track_def passes_snoc)
  next
    case (passed i ph d src ph' w)
    show ?thesis
      by (rule stage_tracks [OF assms(1) tr, of rp grow ph d src])
        (use passed in \<open>simp add: tiers_track_def passes_pass set_worker_def\<close>)
  next
    case (finished i ph d src v w)
    show ?thesis
      by (rule stage_tracks [OF assms(1) tr, of rp grow ph d src])
        (use finished in \<open>simp add: tiers_track_def passes_snoc set_worker_def\<close>)
  qed (use tr in \<open>simp_all add: tiers_track_def passes_snoc set_worker_def close_and_wait_def\<close>)
qed

lemma tiers_track_run:
  assumes "nack_wired sv F ga r pcfg" and "tiers_track cfg [] p0" and "pool_run rp grow F sv p0 es p"
  shows "tiers_track cfg es p"
  using assms(3) by induction (use assms(2) tiers_track_step [OF assms(1)] in auto)

section \<open>Lemmas: where every request is\<close>

fun received_of :: "pool_event \<Rightarrow> nackRequest list" where
  "received_of (Received r) = [r]" | "received_of e = []"

fun queued_of :: "pool_event \<Rightarrow> nackRequest list" where
  "queued_of (Queued r) = [r]" | "queued_of e = []"

fun taken_of :: "pool_event \<Rightarrow> nackRequest list" where
  "taken_of (Taken i r) = [r]" | "taken_of e = []"

fun finished_of :: "pool_event \<Rightarrow> nackRequest list" where
  "finished_of (Finished i ph r t v) = [r]" | "finished_of e = []"

definition history :: "(pool_event \<Rightarrow> 'a list) \<Rightarrow> pool_event list \<Rightarrow> 'a list" where
  "history f es = concat (map f es)"

fun busy_of :: "pool_worker \<Rightarrow> nackRequest list" where
  "busy_of (Busy ph r) = [r]" | "busy_of w = []"

fun pending_of :: "reader \<Rightarrow> nackRequest list" where
  "pending_of (Sending r) = [r]" | "pending_of R = []"

definition in_work :: "'w pool \<Rightarrow> nackRequest list" where
  "in_work p = concat (map busy_of (p_workers p))"

text \<open>
  The channel is a bounded queue between the read loop and the workers; a request that was received is queued, except the one the
  loop holds when it is cancelled; a request that was taken is in work or has its verdict.
\<close>

definition pool_ok :: "nat \<Rightarrow> pool_event list \<Rightarrow> 'w pool \<Rightarrow> bool" where
  "pool_ok n es p \<longleftrightarrow>
     history queued_of es = history taken_of es @ p_chan p \<and> length (p_chan p) \<le> requests_cap
   \<and> (\<exists>lost. history received_of es = history queued_of es @ lost
        \<and> (if p_closed p then length lost \<le> 1 else lost = pending_of (p_reader p)))
   \<and> mset (history taken_of es) = mset (history finished_of es) + mset (in_work p)
   \<and> (p_closed p \<longleftrightarrow> p_reader p \<in> {Waiting, Returned}) \<and> (p_closed p \<longrightarrow> p_cancel p)
   \<and> (p_reader p = Returned \<longrightarrow> list_all (\<lambda>w. w = Exited) (p_workers p)) \<and> length (p_workers p) = n"

lemma history_snoc [simp]: "history f (es @ [e]) = history f es @ f e" "history f [] = []"
  by (simp_all add: history_def)

lemma mset_worker_update:
  "i < length ws \<Longrightarrow> mset (concat (map f (ws[i := w]))) + mset (f (ws ! i)) = mset (concat (map f ws)) + mset (f w)"
proof (induction ws arbitrary: i)
  case (Cons x ws)
  then show ?case by (cases i) (auto simp: add.assoc add.left_commute)
qed simp

lemma in_work_set:
  assumes "at_worker p i w"
  shows "mset (in_work (set_worker i w' p)) + mset (busy_of w) = mset (in_work p) + mset (busy_of w')"
  using mset_worker_update [of i "p_workers p" busy_of w'] assms by (auto simp: at_worker_def in_work_def set_worker_def)

lemma set_worker_simps [simp]:
  "p_reader (set_worker i w p) = p_reader p" "p_chan (set_worker i w p) = p_chan p" "p_closed (set_worker i w p) = p_closed p"
  "p_cancel (set_worker i w p) = p_cancel p" "p_now (set_worker i w p) = p_now p" "p_world (set_worker i w p) = p_world p"
  "length (p_workers (set_worker i w p)) = length (p_workers p)"
  by (simp_all add: set_worker_def)

lemma in_work_frame [simp]:
  "in_work (p\<lparr>p_reader := R\<rparr>) = in_work p" "in_work (p\<lparr>p_chan := C\<rparr>) = in_work p" "in_work (p\<lparr>p_closed := b\<rparr>) = in_work p"
  "in_work (p\<lparr>p_cancel := b\<rparr>) = in_work p" "in_work (p\<lparr>p_now := t\<rparr>) = in_work p" "in_work (p\<lparr>p_world := w\<rparr>) = in_work p"
  by (simp_all add: in_work_def)

lemma at_worker_frame [simp]:
  "at_worker (p\<lparr>p_chan := C\<rparr>) i w = at_worker p i w" "at_worker (p\<lparr>p_world := s\<rparr>) i w = at_worker p i w"
  by (simp_all add: at_worker_def)

lemma exited_update: "list_all (\<lambda>w. w = Exited) ws \<Longrightarrow> i < length ws \<Longrightarrow> ws ! i = Exited"
  by (simp add: list_all_length)

lemma pool_ok_start:
  assumes "Server_Run listen sv t s = Inr p"
  shows "pool_ok (nat (sv_workers sv)) [] p"
  using assms by (auto simp: Server_Run_def pool_ok_def in_work_def requests_cap_def split: option.splits)

lemma pool_ok_step:
  assumes "pool_ok n es p" and "pool_step rp grow F sv e p p'"
  shows "pool_ok n (es @ [e]) p'"
  using assms(2)
proof cases
  case (taken i r rs)
  with assms(1) in_work_set [of "p\<lparr>p_chan := rs\<rparr>" i Idle "Busy AtRequest r"] exited_update [of "p_workers p" i] show ?thesis
    by (auto simp: pool_ok_def at_worker_def)
next
  case (passed i ph d src ph' w)
  with assms(1) in_work_set [of "p\<lparr>p_world := w\<rparr>" i "Busy ph (d, src)" "Busy ph' (d, src)"] exited_update [of "p_workers p" i] show ?thesis
    by (auto simp: pool_ok_def at_worker_def)
next
  case (finished i ph d src v w)
  with assms(1) in_work_set [of "p\<lparr>p_world := w\<rparr>" i "Busy ph (d, src)" Idle] exited_update [of "p_workers p" i] show ?thesis
    by (auto simp: pool_ok_def at_worker_def)
next
  case (quit_done i)
  with assms(1) in_work_set [of p i Idle Exited] exited_update [of "p_workers p" i] show ?thesis
    by (auto simp: pool_ok_def at_worker_def)
next
  case (quit_closed i)
  with assms(1) in_work_set [of p i Idle Exited] exited_update [of "p_workers p" i] show ?thesis
    by (auto simp: pool_ok_def at_worker_def)
qed (use assms(1) in \<open>auto simp: pool_ok_def close_and_wait_def in_work_def split: if_splits\<close>)

lemma pool_ok_run:
  assumes "pool_ok n [] p0" and "pool_run rp grow F sv p0 es p"
  shows "pool_ok n es p"
  using assms(2) by induction (use assms(1) pool_ok_step in auto)

section \<open>Lemmas: the pool stops\<close>

text \<open>The pool's own steps, and how many of them are left at most once the context is cancelled.\<close>

definition own_step :: "pool_event \<Rightarrow> bool" where
  "own_step e \<longleftrightarrow> e \<noteq> Tick \<and> e \<noteq> Outside"

fun reader_left :: "reader \<Rightarrow> nat" where
  "reader_left Reading = 12"
| "reader_left (Sending r) = 11"
| "reader_left Top = 2"
| "reader_left Waiting = 1"
| "reader_left Returned = 0"

fun worker_left :: "pool_worker \<Rightarrow> nat" where
  "worker_left (Busy ph r) = Suc (stage_left ph)"
| "worker_left Idle = 1"
| "worker_left Exited = 0"

definition steps_left :: "'w pool \<Rightarrow> nat" where
  "steps_left p = reader_left (p_reader p) + 8 * length (p_chan p) + sum_list (map worker_left (p_workers p))"

lemma sum_list_update_at:
  "i < length ws \<Longrightarrow> sum_list (map f (ws[i := w])) + f (ws ! i) = sum_list (map f ws) + (f w :: nat)"
proof (induction ws arbitrary: i)
  case (Cons x ws)
  then show ?case by (cases i) auto
qed simp

lemma steps_left_set:
  "at_worker p i w \<Longrightarrow> steps_left (set_worker i w' p) + worker_left w = steps_left p + worker_left w'"
  using sum_list_update_at [of i "p_workers p" worker_left w'] by (auto simp: steps_left_def at_worker_def set_worker_def)

lemma stage_left_bounds: "1 \<le> stage_left ph" "stage_left ph \<le> 5"
  by (cases ph; simp)+

lemma steps_left_step:
  assumes "pool_step rp grow F sv e p p'" and "p_cancel p"
  shows "p_cancel p' \<and> (if own_step e then steps_left p' < steps_left p else steps_left p' = steps_left p)"
  using assms(1)
proof cases
  case (taken i r rs)
  with assms(2) steps_left_set [of "p\<lparr>p_chan := rs\<rparr>" i Idle "Busy AtRequest r"] show ?thesis
    by (auto simp: own_step_def steps_left_def)
next
  case (passed i ph d src ph' w)
  with assms(2) steps_left_set [of "p\<lparr>p_world := w\<rparr>" i "Busy ph (d, src)" "Busy ph' (d, src)"]
    nack_stage_left [OF passed(4)] show ?thesis by (auto simp: own_step_def steps_left_def)
next
  case (finished i ph d src v w)
  with assms(2) steps_left_set [of "p\<lparr>p_world := w\<rparr>" i "Busy ph (d, src)" Idle] stage_left_bounds [of ph] show ?thesis
    by (auto simp: own_step_def steps_left_def)
next
  case (quit_done i)
  with assms(2) steps_left_set [of p i Idle Exited] show ?thesis by (auto simp: own_step_def)
next
  case (quit_closed i)
  with assms(2) steps_left_set [of p i Idle Exited] show ?thesis by (auto simp: own_step_def)
qed (use assms(2) in \<open>auto simp: own_step_def steps_left_def close_and_wait_def\<close>)

lemma steps_left_run:
  assumes "pool_run rp grow F sv p es p'" and "p_cancel p"
  shows "p_cancel p' \<and> length (filter own_step es) + steps_left p' \<le> steps_left p"
  using assms(1)
proof induction
  case (step es q e q')
  with steps_left_step [OF step.hyps(2)] show ?case by (auto split: if_splits)
qed (simp add: assms(2))

lemma steps_left_bound: "pool_ok n es p \<Longrightarrow> steps_left p \<le> 812 + 6 * n"
proof -
  assume ok: "pool_ok n es p"
  have w: "worker_left w \<le> 6" for w
    using stage_left_bounds(2) by (cases w) auto
  have "sum_list (map worker_left ws) \<le> 6 * length ws" for ws
  proof (induction ws)
    case (Cons a ws)
    with w [of a] show ?case by simp
  qed simp
  from this [of "p_workers p"] ok show ?thesis
    by (cases "p_reader p") (auto simp: steps_left_def pool_ok_def requests_cap_def)
qed

lemma not_stuck:
  assumes "nack_wired sv F ga r pcfg" and "tiers_track cfg es p" and "p_cancel p" and "p_reader p \<noteq> Returned"
  shows "\<exists>e p'. pool_step rp grow F sv e p p' \<and> own_step e"
proof (cases "p_reader p = Waiting \<and> \<not> list_all (\<lambda>w. w = Exited) (p_workers p)")
  case True
  then obtain i where i: "i < length (p_workers p)" "p_workers p ! i \<noteq> Exited" by (auto simp: list_all_length)
  show ?thesis
  proof (cases "p_workers p ! i")
    case Idle
    with i assms(3) have "pool_step rp grow F sv (Quit i) p (set_worker i Exited p)" by (simp add: quit_done at_worker_def)
    then show ?thesis by (auto simp: own_step_def)
  next
    case (Busy ph rq)
    obtain d src where rq: "rq = (d, src)" by force
    note tr = assms(2) [unfolded tiers_track_def, THEN conjunct1] assms(2) [unfolded tiers_track_def, THEN conjunct2]
    obtain res w where "nack_stage rp grow F sv (p_now p) ph d src (p_world p) = Some (res, w)"
      by (rule stage_tracks [OF assms(1) tr])
    moreover have "at_worker p i (Busy ph (d, src))" using i Busy rq by (simp add: at_worker_def)
    ultimately show ?thesis
      using passed [of p i ph d src rp grow F sv _ w] finished [of p i ph d src rp grow F sv _ w]
      by (cases res) (fastforce simp: own_step_def)+
  qed (use i in simp)
next
  case False
  with assms(3,4) show ?thesis
    by (cases "p_reader p") (auto simp: own_step_def dest: top_done timeout send_done return)
qed

lemma pool_run_trans:
  assumes "pool_run rp grow F sv p0 es p" and "pool_run rp grow F sv p es' p'"
  shows "pool_run rp grow F sv p0 (es @ es') p'"
  using assms(2) by induction (use assms(1) pool_run.step in \<open>auto simp flip: append_assoc\<close>)

lemma pool_returns:
  assumes "nack_wired sv F ga r pcfg" and "tiers_track cfg [] p0" and "pool_run rp grow F sv p0 es p" and "p_cancel p"
  shows "\<exists>es' p'. pool_run rp grow F sv p es' p' \<and> p_reader p' = Returned"
  using assms(3,4)
proof (induction "steps_left p" arbitrary: es p rule: less_induct)
  case less
  show ?case
  proof (cases "p_reader p = Returned")
    case True
    then show ?thesis using pool_run.start by blast
  next
    case False
    obtain e q where q: "pool_step rp grow F sv e p q" "own_step e"
      using not_stuck [OF assms(1) tiers_track_run [OF assms(1,2) less.prems(1)] less.prems(2) False] by blast
    with steps_left_step [OF q(1) less.prems(2)] less.hyps [of q "es @ [e]"] pool_run.step [OF less.prems(1) q(1)]
    obtain es' p' where "pool_run rp grow F sv q es' p'" "p_reader p' = Returned" by auto
    with pool_run_trans [OF pool_run.step [OF pool_run.start q(1)]] show ?thesis by blast
  qed
qed

section \<open>Lemmas: one worker serves in turn\<close>

fun done_of :: "pool_event \<Rightarrow> (nackRequest \<times> verdict) list" where
  "done_of (Finished i ph r t v) = [(r, v)]" | "done_of e = []"

fun clock_end :: "int \<Rightarrow> (clock \<times> bytes \<times> UDPAddr option) list \<Rightarrow> int" where
  "clock_end t [] = t"
| "clock_end t ((ck, d, src) # reqs) = clock_end (t_Chain ck) reqs"

lemma clocks_from_snoc:
  "clocks_from t (reqs @ [(ck, d, src)]) \<longleftrightarrow> clocks_from t reqs \<and> clock_end t reqs \<le> t_Seq ck \<and> t_Seq ck \<le> t_Chain ck"
  by (induction reqs arbitrary: t) auto

lemma clock_end_snoc [simp]: "clock_end t (reqs @ [(ck, d, src)]) = t_Chain ck"
  by (induction reqs arbitrary: t) auto

lemma serve_reqs_snoc:
  assumes "serve_reqs rp grow F sv reqs s = Some (vs, s1)" and "processNACK rp grow F sv ck d src s1 = Some (v, s2)"
  shows "serve_reqs rp grow F sv (reqs @ [(ck, d, src)]) s = Some (vs @ [v], s2)"
  using assms(1)
proof (induction reqs arbitrary: s vs)
  case (Cons q reqs)
  then show ?case by (cases q) (auto split: option.splits)
qed (use assms(2) in simp)

text \<open>
  \<open>midway\<close>: a request that began in \<open>s1\<close> is before stage \<open>ph\<close>, having taken the clock readings \<open>tm\<close>, none before \<open>t\<close>.
\<close>

definition midway :: "'l rate_pkg \<Rightarrow> (nat \<Rightarrow> nat) \<Rightarrow> frame_pkg \<Rightarrow> ('b, ('b, 'l, 'z) world_scheme) Server \<Rightarrow> int \<Rightarrow> int \<Rightarrow> (stage \<Rightarrow> int)
    \<Rightarrow> stage \<Rightarrow> nackRequest \<Rightarrow> ('b, 'l, 'z) world_scheme \<Rightarrow> ('b, 'l, 'z) world_scheme \<Rightarrow> bool" where
  "midway rp grow F sv t now tm ph r s1 s \<longleftrightarrow>
     (\<forall>a. stage_left ph < stage_left a \<longrightarrow> t \<le> tm a \<and> tm a \<le> now)
   \<and> (\<forall>a b. stage_left ph < stage_left b \<longrightarrow> stage_left b \<le> stage_left a \<longrightarrow> tm a \<le> tm b)
   \<and> (\<forall>tm'. (\<forall>a. stage_left ph < stage_left a \<longrightarrow> tm' a = tm a) \<longrightarrow>
        nack_rest rp grow F sv tm' AtRequest (fst r) (snd r) s1 = nack_rest rp grow F sv tm' ph (fst r) (snd r) s)"

lemma stage_first: "\<not> 5 < stage_left a"
  by (cases a) simp_all

lemma midway_start: "midway rp grow F sv t now tm AtRequest r s s"
  by (simp add: midway_def stage_first)

lemma midway_later: "midway rp grow F sv t now tm ph r s1 s \<Longrightarrow> now \<le> now' \<Longrightarrow> midway rp grow F sv t now' tm ph r s1 s"
  by (force simp: midway_def)

lemma midway_pass:
  assumes "midway rp grow F sv t now tm ph (d, src) s1 s" and "t \<le> now"
    and "nack_stage rp grow F sv now ph d src s = Some (Inl ph', s')"
  shows "midway rp grow F sv t now (tm(ph := now)) ph' (d, src) s1 s'"
proof -
  have left: "stage_left ph = Suc (stage_left ph')" using nack_stage_left [OF assms(3)] .
  have eq: "stage_left a = stage_left b \<longleftrightarrow> a = b" for a b by (cases a; cases b; simp)
  have lt: "stage_left ph' < stage_left a \<longleftrightarrow> stage_left ph < stage_left a \<or> a = ph" for a
    using left eq [of a ph] by auto
  have le: "stage_left ph \<le> stage_left a \<longleftrightarrow> stage_left ph < stage_left a \<or> a = ph" for a
    using eq [of a ph] by auto
  have "nack_rest rp grow F sv tm' AtRequest d src s1 = nack_rest rp grow F sv tm' ph' d src s'"
    if "\<forall>a. stage_left ph' < stage_left a \<longrightarrow> tm' a = (tm(ph := now)) a" for tm'
  proof -
    have "tm' ph = now" "\<forall>a. stage_left ph < stage_left a \<longrightarrow> tm' a = tm a" using that left by (auto simp: lt)
    with assms(1,3) show ?thesis by (simp add: midway_def nack_rest.simps [of _ _ _ _ _ ph])
  qed
  with assms(1,2) show ?thesis by (auto simp: midway_def lt le)
qed

lemma midway_finish:
  assumes "midway rp grow F sv t now tm ph (d, src) s1 s" and "t \<le> now"
    and "nack_stage rp grow F sv now ph d src s = Some (Inr v, s')"
  obtains ck where "processNACK rp grow F sv ck d src s1 = Some (v, s')"
    and "t \<le> t_Seq ck" and "t_Seq ck \<le> t_Chain ck" and "t_Chain ck \<le> now"
proof -
  define tm' where "tm' = (\<lambda>a. if stage_left ph < stage_left a then tm a else now)"
  have "tm' ph = now" "\<forall>a. stage_left ph < stage_left a \<longrightarrow> tm' a = tm a" by (auto simp: tm'_def)
  with assms(1,3) have "nack_rest rp grow F sv tm' AtRequest d src s1 = Some (v, s')"
    by (simp add: midway_def nack_rest.simps [of _ _ _ _ _ ph])
  moreover have "t \<le> tm' AtSequence" "tm' AtSequence \<le> tm' AtChain" "tm' AtChain \<le> now"
    using assms(1,2) unfolding tm'_def midway_def by auto
  ultimately show ?thesis using that [of "clock_of tm'"] by (simp add: nack_rest_processNACK) (simp add: clock_of_def)
qed

text \<open>With one worker, what is done was done by \<open>serve_reqs\<close>, and the worker is idle or midway in the next request.\<close>

definition serial :: "'l rate_pkg \<Rightarrow> (nat \<Rightarrow> nat) \<Rightarrow> frame_pkg \<Rightarrow> ('b, ('b, 'l, 'z) world_scheme) Server \<Rightarrow> int \<Rightarrow> ('b, 'l, 'z) world_scheme
    \<Rightarrow> pool_event list \<Rightarrow> ('b, 'l, 'z) world_scheme pool \<Rightarrow> bool" where
  "serial rp grow F sv t s0 es p \<longleftrightarrow>
    (\<exists>reqs s1. map snd reqs = map fst (history done_of es)
       \<and> serve_reqs rp grow F sv reqs s0 = Some (map snd (history done_of es), s1)
       \<and> clocks_from t reqs \<and> clock_end t reqs \<le> p_now p \<and> history taken_of es = map snd reqs @ in_work p
       \<and> (in_work p = [] \<and> s1 = p_world p
          \<or> (\<exists>ph r tm. p_workers p = [Busy ph r] \<and> midway rp grow F sv (clock_end t reqs) (p_now p) tm ph r s1 (p_world p))))"

lemma single_worker: "length (p_workers p) = 1 \<Longrightarrow> at_worker p i w \<longleftrightarrow> i = 0 \<and> p_workers p = [w]"
  by (cases "p_workers p") (auto simp: at_worker_def)

lemma serial_step:
  assumes "serial rp grow F sv t s0 es p" and "length (p_workers p) = 1" and "pool_step rp grow F sv e p p'"
    and "e \<noteq> Outside" and "p_reader p' \<noteq> Returned"
  shows "serial rp grow F sv t s0 (es @ [e]) p'"
proof -
  note one = single_worker [OF assms(2)]
  obtain reqs s1 where b: "map snd reqs = map fst (history done_of es)" "history taken_of es = map snd reqs @ in_work p"
      "serve_reqs rp grow F sv reqs s0 = Some (map snd (history done_of es), s1)" "clocks_from t reqs" "clock_end t reqs \<le> p_now p"
    and w: "in_work p = [] \<and> s1 = p_world p
          \<or> (\<exists>ph r tm. p_workers p = [Busy ph r] \<and> midway rp grow F sv (clock_end t reqs) (p_now p) tm ph r s1 (p_world p))"
    using assms(1) unfolding serial_def by (elim exE conjE) (rule that)
  show ?thesis
    using assms(3)
  proof cases
    case (tick u)
    then have "midway rp grow F sv c u tm ph r s1 s" if "midway rp grow F sv c (p_now p) tm ph r s1 s" for c tm ph r s
      using midway_later [OF that] by simp
    with b w tick show ?thesis
      unfolding serial_def by (intro exI [of _ reqs] exI [of _ s1]) (auto simp: in_work_def, blast+)
  next
    case (taken i r rs)
    with b w one show ?thesis
      unfolding serial_def by (intro exI [of _ reqs] exI [of _ s1]) (auto simp: in_work_def set_worker_def midway_start)
  next
    case (passed i ph d src ph' s')
    with b w one show ?thesis
      unfolding serial_def
      by (intro exI [of _ reqs] exI [of _ s1]) (auto simp: in_work_def set_worker_def dest: midway_pass [OF _ b(5) passed(4)])
  next
    case (finished i ph d src v s')
    with w one obtain tm where m: "midway rp grow F sv (clock_end t reqs) (p_now p) tm ph (d, src) s1 (p_world p)"
      by (auto simp: in_work_def)
    obtain ck where "processNACK rp grow F sv ck d src s1 = Some (v, s')"
      "clock_end t reqs \<le> t_Seq ck" "t_Seq ck \<le> t_Chain ck" "t_Chain ck \<le> p_now p"
      by (rule midway_finish [OF m b(5) finished(4)])
    with b finished one serve_reqs_snoc [OF b(3), of ck d src v s'] show ?thesis
      unfolding serial_def
      by (intro exI [of _ "reqs @ [(ck, d, src)]"] exI [of _ s'])
        (auto simp: in_work_def set_worker_def clocks_from_snoc)
  next
    case (quit_done i)
    with b w one show ?thesis
      unfolding serial_def by (intro exI [of _ reqs] exI [of _ s1]) (auto simp: in_work_def set_worker_def)
  next
    case (quit_closed i)
    with b w one show ?thesis
      unfolding serial_def by (intro exI [of _ reqs] exI [of _ s1]) (auto simp: in_work_def set_worker_def)
  qed (use b w assms(4,5) in \<open>auto simp: serial_def in_work_def close_and_wait_def intro!: exI [of _ reqs] exI [of _ s1]\<close>)
qed

lemma serial_run:
  assumes "Server_Run listen sv t s = Inr p0" and "sv_workers sv = 1" and "pool_run rp grow F sv p0 es p"
    and "Outside \<notin> set es" and "p_reader p \<noteq> Returned"
  shows "serial rp grow F sv t (io_rec rec_WorkerReady s) es p"
  using assms(3-5)
proof induction
  case start
  with assms(1,2) show ?case
    by (auto simp: Server_Run_def serial_def in_work_def split: option.splits intro!: exI [of _ "[]"])
next
  case (step es p e p')
  from step.hyps(2) step.prems(2) have "p_reader p \<noteq> Returned" by cases (auto simp: close_and_wait_def)
  moreover have "length (p_workers p) = 1"
    using pool_ok_run [OF pool_ok_start [OF assms(1)] step.hyps(1)] assms(2) by (simp add: pool_ok_def)
  ultimately show ?case using serial_step [OF _ _ step.hyps(2)] step by auto
qed

section \<open>Properties\<close>


text \<open>
  C15: The window tiers hold under concurrency.  However the workers interleave, in any window of the configured length no flow and
  sequence number gets more than \<^verbatim>\<open>SequenceMax\<close> requests past the sequence tier, and no source and flow more than the chain
  tier's maximum past the chain tier.
\<close>

theorem pool_rate_bound:
  assumes "nack_wired sv F ga r pcfg" and "lim s = newLimiter cfg" and "Server_Run listen sv t s = Inr p0"
    and "pool_run rp grow F sv p0 es p"
  shows "int (length (filter (\<lambda>u. e - seqWin cfg < u \<and> u \<le> e) (seq_passes es k))) \<le> max 0 (SequenceMax cfg)
    \<and> int (length (filter (\<lambda>u. e - chainWin cfg < u \<and> u \<le> e) (chain_passes es c))) \<le> max 0 (chainMax cfg)"
  using tiers_track_run [OF assms(1) tiers_track_start [OF assms(2,3)] assms(4)]
  by (simp add: tiers_track_def sw.tracks_def win_bounded_def)

text \<open>
  C17: No request is lost, duplicated or reordered on its way to a worker.  The workers take the requests in the order the read loop queued
  them and at most 100 wait; a received request is queued, except the one the loop holds when it is cancelled; each request taken is in work
  with one worker or has one verdict; and the channel is closed once, after the last send.
\<close>

theorem pool_delivery:
  assumes "Server_Run listen sv t s = Inr p0" and "pool_run rp grow F sv p0 es p"
  shows "history queued_of es = history taken_of es @ p_chan p \<and> length (p_chan p) \<le> requests_cap
    \<and> (\<exists>lost. history received_of es = history queued_of es @ lost \<and> length lost \<le> 1
         \<and> (lost \<noteq> [] \<longrightarrow> p_closed p \<or> p_reader p = Sending (hd lost)))
    \<and> mset (history taken_of es) = mset (history finished_of es) + mset (in_work p)
    \<and> (p_closed p \<longleftrightarrow> p_reader p \<in> {Waiting, Returned})"
proof -
  have ok: "pool_ok (nat (sv_workers sv)) es p" by (rule pool_ok_run [OF pool_ok_start [OF assms(1)] assms(2)])
  then obtain lost where "history received_of es = history queued_of es @ lost"
    "if p_closed p then length lost \<le> 1 else lost = pending_of (p_reader p)"
    unfolding pool_ok_def by (elim conjE exE) (rule that)
  moreover have "length (pending_of R) \<le> 1" "pending_of R \<noteq> [] \<longrightarrow> R = Sending (hd (pending_of R))" for R
    by (cases R; simp)+
  ultimately have "\<exists>lost. history received_of es = history queued_of es @ lost \<and> length lost \<le> 1
      \<and> (lost \<noteq> [] \<longrightarrow> p_closed p \<or> p_reader p = Sending (hd lost))"
    by (intro exI [of _ lost]) (auto split: if_splits)
  with ok show ?thesis by (simp add: pool_ok_def)
qed

text \<open>
  C12: The server stops when it is told to.  Once the context is cancelled, the read loop and the workers are never stuck before
  \<^verbatim>\<open>Run\<close> has returned, they take a bounded number of further steps whatever is queued and whoever is busy, and so \<^verbatim>\<open>Run\<close>
  returns, with every worker gone.
\<close>

theorem server_stops:
  assumes "nack_wired sv F ga r pcfg" and "lim s = newLimiter cfg" and "Server_Run listen sv t s = Inr p0"
    and "pool_run rp grow F sv p0 es p" and "p_cancel p"
  shows "(p_reader p \<noteq> Returned \<longrightarrow> (\<exists>e p'. pool_step rp grow F sv e p p' \<and> own_step e))
    \<and> (\<forall>es' p'. pool_run rp grow F sv p es' p' \<longrightarrow> length (filter own_step es') \<le> 812 + 6 * nat (sv_workers sv))
    \<and> (\<exists>es' p'. pool_run rp grow F sv p es' p' \<and> p_reader p' = Returned \<and> list_all (\<lambda>w. w = Exited) (p_workers p'))"
proof (intro conjI allI impI)
  note tr = tiers_track_start [OF assms(2,3)] and ok = pool_ok_start [OF assms(3)]
  show "p_reader p \<noteq> Returned \<Longrightarrow> \<exists>e p'. pool_step rp grow F sv e p p' \<and> own_step e"
    using not_stuck [OF assms(1) tiers_track_run [OF assms(1) tr assms(4)] assms(5)] .
  show "length (filter own_step es') \<le> 812 + 6 * nat (sv_workers sv)" if "pool_run rp grow F sv p es' p'" for es' p'
    using steps_left_run [OF that assms(5)] steps_left_bound [OF pool_ok_run [OF ok assms(4)]] by simp
  obtain es' p' where q: "pool_run rp grow F sv p es' p'" "p_reader p' = Returned"
    using pool_returns [OF assms(1) tr assms(4,5)] by blast
  with pool_ok_run [OF ok pool_run_trans [OF assms(4) q(1)]]
  show "\<exists>es' p'. pool_run rp grow F sv p es' p' \<and> p_reader p' = Returned \<and> list_all (\<lambda>w. w = Exited) (p_workers p')"
    by (auto simp: pool_ok_def)
qed

text \<open>
  C16: One worker is the sequential server.  With \<^verbatim>\<open>-workers 1\<close> and no other goroutine interfering, whenever the worker is between
  requests the shared state and the verdicts are those of \<^verbatim>\<open>processNACK\<close> run on the requests one after the other, in the order they
  were queued, at clock readings that never go back: the socket, the channel and the stages change nothing.
\<close>

theorem one_worker_refines:
  assumes "Server_Run listen sv t s = Inr p0" and "sv_workers sv = 1" and "pool_run rp grow F sv p0 es p"
    and "Outside \<notin> set es" and "p_reader p \<noteq> Returned" and "in_work p = []"
  shows "\<exists>reqs. map snd reqs = history taken_of es \<and> clocks_from t reqs
    \<and> serve_reqs rp grow F sv reqs (io_rec rec_WorkerReady s) = Some (map snd (history done_of es), p_world p)"
proof -
  have "p_workers p \<noteq> [Busy ph q]" for ph q using assms(6) by (auto simp: in_work_def)
  with serial_run [OF assms(1-5)] assms(6) show ?thesis unfolding serial_def by force
qed

section \<open>Concrete instances\<close>

text \<open>One worker, one request for the stored frame, from the socket to its verdict.\<close>

definition ex_pool_server :: "((bytes, bytes) amap, ((bytes, bytes) amap, nat) world) Server" where
  "ex_pool_server = ex_server\<lparr>sv_workers := 1\<rparr>"

definition ex_req :: nackRequest where "ex_req = (ex_gap, Some ex_src)"

definition ex_at :: "stage \<Rightarrow> ((bytes, bytes) amap, nat) world \<Rightarrow> ((stage + verdict) \<times> ((bytes, bytes) amap, nat) world) option" where
  "ex_at ph = nack_stage ex_rp (\<lambda>n. 2 * n) ref_frame_pkg ex_pool_server 1 ph ex_gap (Some ex_src)"

definition ex_after :: "stage list \<Rightarrow> ((bytes, bytes) amap, nat) world" where
  "ex_after phs = fold (\<lambda>ph w. snd (the (ex_at ph w))) phs (io_rec rec_WorkerReady (ex_world ex_stored))"

definition ex_pool :: "reader \<Rightarrow> nackRequest list \<Rightarrow> bool \<Rightarrow> pool_worker \<Rightarrow> stage list \<Rightarrow> ((bytes, bytes) amap, nat) world pool" where
  "ex_pool R C b w phs =
    \<lparr>p_reader = R, p_chan = C, p_closed = False, p_cancel = b, p_workers = [w], p_now = 1, p_world = ex_after phs\<rparr>"

definition ex_events :: "pool_event list" where
  "ex_events = [ReadStart, Received ex_req, Queued ex_req, Taken 0 ex_req, Passed 0 AtRequest ex_req 1, Passed 0 AtIP ex_req 1,
     Passed 0 AtSequence ex_req 1]"

lemma ex_pool_wired: "nack_wired ex_pool_server ref_frame_pkg ref_group_addr ex_rt1 ex_pcfg"
  using ex_wired by (simp add: nack_wired_def ex_pool_server_def)

lemma ex_pool_start: "Server_Run (\<lambda>_ _. None) ex_pool_server 1 (ex_world ex_stored) = Inr (ex_pool Top [] False Idle [])"
  by (simp add: Server_Run_def ex_pool_def ex_after_def ex_pool_server_def)

lemma ex_stages:
  "map_option fst (ex_at AtRequest (ex_after [])) = Some (Inl AtIP)"
  "map_option fst (ex_at AtIP (ex_after [AtRequest])) = Some (Inl AtSequence)"
  "map_option fst (ex_at AtSequence (ex_after [AtRequest, AtIP])) = Some (Inl AtChain)"
  "map_option fst (ex_at AtChain (ex_after [AtRequest, AtIP, AtSequence])) = Some (Inl AtLookup)"
  "map_option fst (ex_at AtLookup (ex_after [AtRequest, AtIP, AtSequence, AtChain])) = Some (Inr Served)"
  by code_simp+

lemma ex_pool_pass:
  assumes "map_option fst (ex_at ph (ex_after phs)) = Some (Inl ph')"
  shows "pool_step ex_rp (\<lambda>n. 2 * n) ref_frame_pkg ex_pool_server (Passed 0 ph ex_req 1)
    (ex_pool Top [] False (Busy ph ex_req) phs) (ex_pool Top [] False (Busy ph' ex_req) (phs @ [ph]))"
proof -
  have "ex_at ph (ex_after phs) = Some (Inl ph', ex_after (phs @ [ph]))"
    using assms by (auto simp: ex_after_def)
  with pool_step.passed [of "ex_pool Top [] False (Busy ph ex_req) phs" 0 ph ex_gap "Some ex_src"] show ?thesis
    by (simp add: ex_pool_def at_worker_def set_worker_def ex_at_def ex_req_def)
qed

lemma ex_pool_serves:
  "pool_step ex_rp (\<lambda>n. 2 * n) ref_frame_pkg ex_pool_server (Finished 0 AtLookup ex_req 1 Served)
    (ex_pool Top [] False (Busy AtLookup ex_req) [AtRequest, AtIP, AtSequence, AtChain])
    (ex_pool Top [] False Idle [AtRequest, AtIP, AtSequence, AtChain, AtLookup])"
proof -
  let ?phs = "[AtRequest, AtIP, AtSequence, AtChain]"
  have "ex_at AtLookup (ex_after ?phs) = Some (Inr Served, ex_after (?phs @ [AtLookup]))"
    using ex_stages(5) by (auto simp: ex_after_def)
  with pool_step.finished [of "ex_pool Top [] False (Busy AtLookup ex_req) ?phs" 0 AtLookup ex_gap "Some ex_src"] show ?thesis
    by (simp add: ex_pool_def at_worker_def set_worker_def ex_at_def ex_req_def)
qed

lemma ex_pool_run:
  "pool_run ex_rp (\<lambda>n. 2 * n) ref_frame_pkg ex_pool_server (ex_pool Top [] False Idle []) ex_events
     (ex_pool Top [] False (Busy AtChain ex_req) [AtRequest, AtIP, AtSequence])"
proof -
  let ?step = "pool_step ex_rp (\<lambda>n. 2 * n) ref_frame_pkg ex_pool_server"
  have "recv_nack ex_gap = Some ex_gap" by code_simp
  then have s: "?step ReadStart (ex_pool Top [] False Idle []) (ex_pool Reading [] False Idle [])"
    "?step (Received ex_req) (ex_pool Reading [] False Idle []) (ex_pool (Sending ex_req) [] False Idle [])"
    "?step (Queued ex_req) (ex_pool (Sending ex_req) [] False Idle []) (ex_pool Top [ex_req] False Idle [])"
    "?step (Taken 0 ex_req) (ex_pool Top [ex_req] False Idle []) (ex_pool Top [] False (Busy AtRequest ex_req) [])"
    using pool_step.top_read [of "ex_pool Top [] False Idle []"] pool_step.received [of "ex_pool Reading [] False Idle []" ex_gap ex_gap]
      pool_step.queued [of "ex_pool (Sending ex_req) [] False Idle []"] pool_step.taken [of "ex_pool Top [ex_req] False Idle []" 0]
    by (simp_all add: ex_pool_def ex_req_def requests_cap_def at_worker_def set_worker_def)
  note p = pool_run.step [OF pool_run.step [OF pool_run.step [OF pool_run.step [OF pool_run.start s(1)] s(2)] s(3)] s(4)]
  note q = ex_stages(1-3) [THEN ex_pool_pass, unfolded append_Cons append_Nil]
  from pool_run.step [OF pool_run.step [OF pool_run.step [OF p q(1)] q(2)] q(3)] show ?thesis by (simp add: ex_events_def)
qed


theorem pool_rate_bound_witness:
  "seq_passes ex_events (nack_seqKey ex_gap) = [1] \<and>
   int (length (filter (\<lambda>u. 1 - seqWin ex_rlcfg < u \<and> u \<le> 1) (seq_passes ex_events (nack_seqKey ex_gap)))) \<le> 3"
  using pool_rate_bound [OF ex_pool_wired _ ex_pool_start ex_pool_run, of ex_rlcfg 1 "nack_seqKey ex_gap"]
  by (simp add: ex_world_def) (simp add: ex_rlcfg_def seq_passes_def ex_events_def ex_req_def)

theorem pool_delivery_witness:
  "mset (history taken_of ex_events) = mset (history finished_of ex_events) + {#ex_req#}"
  using pool_delivery [OF ex_pool_start ex_pool_run] by (simp add: in_work_def ex_pool_def)

theorem server_stops_witness:
  "\<exists>es' p'. pool_run ex_rp (\<lambda>n. 2 * n) ref_frame_pkg ex_pool_server
     (ex_pool Top [] True (Busy AtChain ex_req) [AtRequest, AtIP, AtSequence]) es' p' \<and> p_reader p' = Returned"
proof -
  have "pool_step ex_rp (\<lambda>n. 2 * n) ref_frame_pkg ex_pool_server Cancel
     (ex_pool Top [] False (Busy AtChain ex_req) [AtRequest, AtIP, AtSequence])
     (ex_pool Top [] True (Busy AtChain ex_req) [AtRequest, AtIP, AtSequence])"
    using pool_step.cancel [of "ex_pool Top [] False (Busy AtChain ex_req) [AtRequest, AtIP, AtSequence]"] by (simp add: ex_pool_def)
  from server_stops [OF ex_pool_wired _ ex_pool_start pool_run.step [OF ex_pool_run this], of ex_rlcfg] show ?thesis
    by (auto simp: ex_world_def ex_pool_def)
qed

theorem one_worker_refines_witness:
  "\<exists>ck. serve_reqs ex_rp (\<lambda>n. 2 * n) ref_frame_pkg ex_pool_server [(ck, ex_gap, Some ex_src)]
      (io_rec rec_WorkerReady (ex_world ex_stored))
    = Some ([Served], ex_after [AtRequest, AtIP, AtSequence, AtChain, AtLookup])"
proof -
  have "pool_run ex_rp (\<lambda>n. 2 * n) ref_frame_pkg ex_pool_server (ex_pool Top [] False Idle [])
    (ex_events @ [Passed 0 AtChain ex_req 1, Finished 0 AtLookup ex_req 1 Served])
    (ex_pool Top [] False Idle [AtRequest, AtIP, AtSequence, AtChain, AtLookup])"
    using pool_run.step [OF pool_run.step [OF ex_pool_run] ex_pool_serves] ex_pool_pass [OF ex_stages(4)] by simp
  moreover have "sv_workers ex_pool_server = 1" by (simp add: ex_pool_server_def)
  ultimately obtain reqs where
    "map snd reqs = [ex_req]" "serve_reqs ex_rp (\<lambda>n. 2 * n) ref_frame_pkg ex_pool_server reqs (io_rec rec_WorkerReady (ex_world ex_stored))
       = Some ([Served], ex_after [AtRequest, AtIP, AtSequence, AtChain, AtLookup])"
    using one_worker_refines [OF ex_pool_start]
    by (fastforce simp: ex_pool_def in_work_def ex_events_def history_def simp del: serve_reqs.simps)
  then show ?thesis by (auto simp: map_eq_Cons_conv ex_req_def simp del: serve_reqs.simps)
qed

end
