(* ===== verification/Endpoint_Lifecycle.thy ===== *)
theory Endpoint_Lifecycle
  imports Endpoint_Main Server_Loop
begin

text \<open>
  \<^verbatim>\<open>run\<close> of \<^verbatim>\<open>src/main.go\<close> from its first goroutine to its exit status, as a step relation: the parts it starts, the
  channel of fatal errors, the wait for a signal or a fatal error, draining, cancellation and the wait for every part.  Whether a part
  comes up is the outcome of its own \<^verbatim>\<open>Run\<close>.  Readiness (\<^verbatim>\<open>src/metrics/metrics.go\<close>) is followed along.
\<close>

section \<open>The parts\<close>

datatype part = MetricsSrv | Sampler | IngressPart nat | TeePart | NackPart | BeaconPart

datatype status = PStarting | PRunning | PEnded

definition run_parts :: "Config \<Rightarrow> ('b, 's) endpoint \<Rightarrow> part list" where
  "run_parts cfg ep =
    [MetricsSrv] @ (if CacheBackend cfg = ''memory'' then [Sampler] else [])
    @ (if ep_joining ep then map IngressPart [0..<length (ep_workers ep)] else [])
    @ (if ep_tee ep \<noteq> None then [TeePart] else []) @ [NackPart] @ (if ep_beacon ep \<noteq> None then [BeaconPart] else [])"

text \<open>The parts that call \<^verbatim>\<open>WorkerReady\<close>, and those that feed the cache.\<close>

fun feeds :: "part \<Rightarrow> bool" where
  "feeds (IngressPart i) = True" | "feeds TeePart = True" | "feeds p = False"

definition counted :: "part \<Rightarrow> bool" where
  "counted p \<longleftrightarrow> feeds p \<or> p = NackPart"

text \<open>
  \<open>part_starts ep p r\<close>: the start of \<open>p\<close> may end with \<open>r\<close>, an error or none, given what its sockets do.  The beacon's \<^verbatim>\<open>Run\<close>
  returns no error, even when no group could be dialled.
\<close>

inductive part_starts :: "('b, ('b, 'l, 'z) world_scheme) endpoint \<Rightarrow> part \<Rightarrow> go_error option \<Rightarrow> bool" for ep where
  ingress: "fst (Worker_Run os env join recv (ep_workers ep ! i) (s :: ('b, 'l, 'z) world_scheme)) = r \<Longrightarrow> part_starts ep (IngressPart i) r"
| tee: "fst (Worker_RunTee env (As16 a) (uint port) recv (hd (ep_workers ep)) (s :: ('b, 'l, 'z) world_scheme)) = r \<Longrightarrow>
    ep_tee ep = Some (a, port) \<Longrightarrow> part_starts ep TeePart r"
| nack_up: "Server_Run listen (ep_server ep) t s = Inr p \<Longrightarrow> part_starts ep NackPart None"
| nack_down: "Server_Run listen (ep_server ep) t s = Inl e \<Longrightarrow> part_starts ep NackPart (Some e)"
| other: "p \<in> {MetricsSrv, Sampler, BeaconPart} \<Longrightarrow> part_starts ep p None"

section \<open>The life of an endpoint\<close>

text \<open>The two forms of a fatal error, and where \<^verbatim>\<open>run\<close> is; from the drain on it holds the error it will return.\<close>

datatype fatal = FatalIngress go_error | FatalTee go_error

datatype main_at = MainSelect | MainDraining "fatal option" | MainWait "fatal option" | MainExited "fatal option"

record life =
  lf_at :: "part \<Rightarrow> status"
  lf_fatal :: "fatal option"
  lf_main :: main_at
  lf_cancel :: bool
  lf_rec :: Recorder

definition life_start :: "('b, 's) endpoint \<Rightarrow> life" where
  "life_start ep = \<lparr>lf_at = (\<lambda>_. PStarting), lf_fatal = None, lf_main = MainSelect, lf_cancel = False, lf_rec = ep_recorder ep\<rparr>"

fun fatal_of :: "part \<Rightarrow> go_error \<Rightarrow> fatal option" where
  "fatal_of (IngressPart i) e = Some (FatalIngress e)"
| "fatal_of TeePart e = Some (FatalTee e)"
| "fatal_of p e = None"

text \<open>The non-blocking send on \<^verbatim>\<open>fatalCh\<close>, which has room for one error, unless the context is already cancelled.\<close>

definition post_fatal :: "fatal option \<Rightarrow> life \<Rightarrow> life" where
  "post_fatal f l = (if lf_cancel l \<or> lf_fatal l \<noteq> None then l else l\<lparr>lf_fatal := f\<rparr>)"

definition part_up :: "part \<Rightarrow> life \<Rightarrow> life" where
  "part_up p l = l\<lparr>lf_at := (lf_at l)(p := PRunning), lf_rec := (if counted p then rec_WorkerReady (lf_rec l) else lf_rec l)\<rparr>"

definition part_down :: "part \<Rightarrow> life \<Rightarrow> life" where
  "part_down p l = l\<lparr>lf_at := (lf_at l)(p := PEnded), lf_rec := (if counted p then rec_WorkerDone (lf_rec l) else lf_rec l)\<rparr>"

text \<open>\<^verbatim>\<open>cancel()\<close> and \<^verbatim>\<open>close(done)\<close>, then \<^verbatim>\<open>wg.Wait()\<close>.\<close>

definition cancel_all :: "fatal option \<Rightarrow> life \<Rightarrow> life" where
  "cancel_all f l = l\<lparr>lf_main := MainWait f, lf_cancel := True\<rparr>"

text \<open>Past the \<^verbatim>\<open>select\<close>: draining if it is configured.\<close>

definition leave_select :: "Config \<Rightarrow> fatal option \<Rightarrow> life \<Rightarrow> life" where
  "leave_select cfg f l =
    (if 0 < DrainTimeout cfg then l\<lparr>lf_main := MainDraining f, lf_rec := rec_SetDraining (lf_rec l)\<rparr> else cancel_all f l)"

definition all_ended :: "Config \<Rightarrow> ('b, 's) endpoint \<Rightarrow> life \<Rightarrow> bool" where
  "all_ended cfg ep l \<longleftrightarrow> list_all (\<lambda>p. lf_at l p = PEnded) (run_parts cfg ep)"

datatype life_event = Up part | Failed part go_error | Off part | Died part | Down part | Work | Signal | TookFatal | Drained | Exit

text \<open>
  \<open>died\<close>: the receive loop of an ingress worker or of the tee returns without the context being cancelled, when the read fails with
  \<^verbatim>\<open>EBADF\<close> or \<^verbatim>\<open>EINVAL\<close>; its \<^verbatim>\<open>Run\<close> then returns no error.  \<open>work\<close>: what the parts count while they run.
\<close>

inductive life_step :: "Config \<Rightarrow> ('b, ('b, 'l, 'z) world_scheme) endpoint \<Rightarrow> life_event \<Rightarrow> life \<Rightarrow> life \<Rightarrow> bool" for cfg ep where
  up: "p \<in> set (run_parts cfg ep) \<Longrightarrow> lf_at l p = PStarting \<Longrightarrow> part_starts ep p None \<Longrightarrow> life_step cfg ep (Up p) l (part_up p l)"
| failed: "p \<in> set (run_parts cfg ep) \<Longrightarrow> lf_at l p = PStarting \<Longrightarrow> part_starts ep p (Some e) \<Longrightarrow>
    life_step cfg ep (Failed p e) l (post_fatal (fatal_of p e) (l\<lparr>lf_at := (lf_at l)(p := PEnded)\<rparr>))"
| off: "BeaconPart \<in> set (run_parts cfg ep) \<Longrightarrow> lf_at l BeaconPart = PStarting \<Longrightarrow>
    life_step cfg ep (Off BeaconPart) l (l\<lparr>lf_at := (lf_at l)(BeaconPart := PEnded)\<rparr>)"
| died: "p \<in> set (run_parts cfg ep) \<Longrightarrow> feeds p \<Longrightarrow> lf_at l p = PRunning \<Longrightarrow> life_step cfg ep (Died p) l (part_down p l)"
| down: "p \<in> set (run_parts cfg ep) \<Longrightarrow> lf_at l p = PRunning \<Longrightarrow> lf_cancel l \<Longrightarrow> life_step cfg ep (Down p) l (part_down p l)"
| work: "readyCount r = readyCount (lf_rec l) \<Longrightarrow> numWorkers r = numWorkers (lf_rec l) \<Longrightarrow> draining r = draining (lf_rec l) \<Longrightarrow>
    life_step cfg ep Work l (l\<lparr>lf_rec := r\<rparr>)"
| signal: "lf_main l = MainSelect \<Longrightarrow> life_step cfg ep Signal l (leave_select cfg None l)"
| took_fatal: "lf_main l = MainSelect \<Longrightarrow> lf_fatal l = Some f \<Longrightarrow>
    life_step cfg ep TookFatal l (leave_select cfg (Some f) (l\<lparr>lf_fatal := None\<rparr>))"
| drained: "lf_main l = MainDraining f \<Longrightarrow> life_step cfg ep Drained l (cancel_all f l)"
| exit: "lf_main l = MainWait f \<Longrightarrow> all_ended cfg ep l \<Longrightarrow> life_step cfg ep Exit l (l\<lparr>lf_main := MainExited f\<rparr>)"

inductive life_run :: "Config \<Rightarrow> ('b, ('b, 'l, 'z) world_scheme) endpoint \<Rightarrow> life \<Rightarrow> life_event list \<Rightarrow> life \<Rightarrow> bool" for cfg ep l0 where
  start: "life_run cfg ep l0 [] l0"
| step: "life_run cfg ep l0 es l \<Longrightarrow> life_step cfg ep e l l' \<Longrightarrow> life_run cfg ep l0 (es @ [e]) l'"

declare life_step.intros [intro]

section \<open>Lemmas: readiness and draining\<close>

definition running :: "Config \<Rightarrow> ('b, 's) endpoint \<Rightarrow> life \<Rightarrow> part set" where
  "running cfg ep l = {p \<in> set (run_parts cfg ep). counted p \<and> lf_at l p = PRunning}"

definition counts_ok :: "Config \<Rightarrow> ('b, 's) endpoint \<Rightarrow> life \<Rightarrow> bool" where
  "counts_ok cfg ep l \<longleftrightarrow>
     readyCount (lf_rec l) = int (card (running cfg ep l)) \<and> numWorkers (lf_rec l) = int (length (ep_workers ep))
   \<and> (draining (lf_rec l) \<longleftrightarrow> 0 < DrainTimeout cfg \<and> lf_main l \<noteq> MainSelect)
   \<and> (lf_cancel l \<longleftrightarrow> (\<exists>f. lf_main l = MainWait f \<or> lf_main l = MainExited f))
   \<and> (\<forall>f. lf_main l = MainExited f \<longrightarrow> all_ended cfg ep l)"

lemma running_frame [simp]:
  "running cfg ep (l\<lparr>lf_rec := r\<rparr>) = running cfg ep l" "running cfg ep (l\<lparr>lf_main := m\<rparr>) = running cfg ep l"
  "running cfg ep (l\<lparr>lf_cancel := b\<rparr>) = running cfg ep l" "running cfg ep (l\<lparr>lf_fatal := f\<rparr>) = running cfg ep l"
  by (simp_all add: running_def)

lemma running_up:
  assumes "p \<in> set (run_parts cfg ep)" and "lf_at l p \<noteq> PRunning"
  shows "card (running cfg ep (part_up p l)) = card (running cfg ep l) + (if counted p then 1 else 0)"
proof -
  have "running cfg ep (part_up p l) = (if counted p then insert p (running cfg ep l) else running cfg ep l)"
    using assms(1) by (auto simp: running_def part_up_def)
  moreover have "p \<notin> running cfg ep l" "finite (running cfg ep l)" using assms(2) by (auto simp: running_def)
  ultimately show ?thesis by simp
qed

lemma running_down:
  assumes "p \<in> set (run_parts cfg ep)" and "lf_at l p = PRunning"
  shows "int (card (running cfg ep (part_down p l))) = int (card (running cfg ep l)) - (if counted p then 1 else 0)"
proof -
  have "running cfg ep (part_down p l) = (if counted p then running cfg ep l - {p} else running cfg ep l)"
    using assms(1) by (auto simp: running_def part_down_def)
  moreover have "counted p \<longrightarrow> p \<in> running cfg ep l" "finite (running cfg ep l)" using assms by (auto simp: running_def)
  moreover from this have "counted p \<longrightarrow> 0 < card (running cfg ep l)" by (auto simp: card_gt_0_iff)
  ultimately show ?thesis by (auto simp: card_Diff_singleton of_nat_diff)
qed

lemma running_ended:
  "lf_at l p \<noteq> PRunning \<Longrightarrow> running cfg ep (l\<lparr>lf_at := (lf_at l)(p := PEnded)\<rparr>) = running cfg ep l"
  by (auto simp: running_def)

lemma all_ended_frame [simp]:
  "all_ended cfg ep (l\<lparr>lf_rec := r\<rparr>) = all_ended cfg ep l" "all_ended cfg ep (l\<lparr>lf_main := m\<rparr>) = all_ended cfg ep l"
  "all_ended cfg ep (l\<lparr>lf_cancel := b\<rparr>) = all_ended cfg ep l" "all_ended cfg ep (l\<lparr>lf_fatal := f\<rparr>) = all_ended cfg ep l"
  by (simp_all add: all_ended_def)

lemma all_endedD: "all_ended cfg ep l \<Longrightarrow> p \<in> set (run_parts cfg ep) \<Longrightarrow> lf_at l p = PEnded"
  by (simp add: all_ended_def list_all_iff)

lemma all_ended_none: "all_ended cfg ep l \<Longrightarrow> running cfg ep l = {}"
  by (auto simp: running_def all_ended_def list_all_iff)

lemma post_fatal_simps [simp]:
  "lf_at (post_fatal f l) = lf_at l" "lf_main (post_fatal f l) = lf_main l" "lf_cancel (post_fatal f l) = lf_cancel l"
  "lf_rec (post_fatal f l) = lf_rec l" "running cfg ep (post_fatal f l) = running cfg ep l"
  "all_ended cfg ep (post_fatal f l) = all_ended cfg ep l"
  by (simp_all add: post_fatal_def)

lemma part_up_simps [simp]:
  "lf_main (part_up p l) = lf_main l" "lf_cancel (part_up p l) = lf_cancel l" "lf_fatal (part_up p l) = lf_fatal l"
  "numWorkers (lf_rec (part_up p l)) = numWorkers (lf_rec l)" "draining (lf_rec (part_up p l)) = draining (lf_rec l)"
  "readyCount (lf_rec (part_up p l)) = readyCount (lf_rec l) + (if counted p then 1 else 0)"
  by (simp_all add: part_up_def rec_WorkerReady_def)

lemma part_down_simps [simp]:
  "lf_main (part_down p l) = lf_main l" "lf_cancel (part_down p l) = lf_cancel l" "lf_fatal (part_down p l) = lf_fatal l"
  "numWorkers (lf_rec (part_down p l)) = numWorkers (lf_rec l)" "draining (lf_rec (part_down p l)) = draining (lf_rec l)"
  "readyCount (lf_rec (part_down p l)) = readyCount (lf_rec l) - (if counted p then 1 else 0)"
  by (simp_all add: part_down_def rec_WorkerDone_def)

lemma counts_ok_step:
  assumes "counts_ok cfg ep l" and "life_step cfg ep e l l'"
  shows "counts_ok cfg ep l'"
  using assms(2)
proof cases
  case (up p)
  with assms(1) running_up [of p cfg ep l] all_endedD [of cfg ep l p] show ?thesis by (auto simp: counts_ok_def)
next
  case (failed p e)
  with assms(1) running_ended [of l p cfg ep] all_endedD [of cfg ep l p] show ?thesis by (auto simp: counts_ok_def)
next
  case off
  with assms(1) running_ended [of l BeaconPart cfg ep] all_endedD [of cfg ep l BeaconPart] show ?thesis by (auto simp: counts_ok_def)
next
  case (died p)
  with assms(1) running_down [of p cfg ep l] all_endedD [of cfg ep l p] show ?thesis by (auto simp: counts_ok_def)
next
  case (down p)
  with assms(1) running_down [of p cfg ep l] all_endedD [of cfg ep l p] show ?thesis by (auto simp: counts_ok_def)
qed (use assms(1) in \<open>auto simp: counts_ok_def leave_select_def cancel_all_def rec_SetDraining_def\<close>)

lemma counts_ok_run: "life_run cfg ep l0 es l \<Longrightarrow> counts_ok cfg ep l0 \<Longrightarrow> counts_ok cfg ep l"
  by (induction rule: life_run.induct) (auto intro: counts_ok_step)

text \<open>What the recorder of a new endpoint says.\<close>

lemma counts_ok_start:
  assumes "run_setup F G eng beef R S se cfg = Inr ep"
  shows "counts_ok cfg ep (life_start ep)"
proof -
  obtain fb nackIP gs where "wired_parts F G eng beef R S se cfg ep fb nackIP gs"
    using assms by (rule run_setup_parts)
  then have "ep_recorder ep = build_recorder cfg (ep_workers ep) gs" by (simp add: wired_parts_def)
  moreover have "readyCount (fold (\<lambda>s. add_series s 0) xs r) = readyCount r \<and> numWorkers (fold (\<lambda>s. add_series s 0) xs r) = numWorkers r
      \<and> draining (fold (\<lambda>s. add_series s 0) xs r) = draining r" for xs r
    by (induction xs arbitrary: r) (auto simp: add_series_def add_metric_def)
  ultimately show ?thesis
    by (auto simp: counts_ok_def life_start_def running_def build_recorder_def Let_def rec_PreCreateSources_def
        rec_SetWorkers_def new_Recorder_def split: option.splits)
qed

section \<open>Lemmas: fatal errors\<close>

fun main_error :: "main_at \<Rightarrow> fatal option" where
  "main_error MainSelect = None"
| "main_error (MainDraining f) = f"
| "main_error (MainWait f) = f"
| "main_error (MainExited f) = f"

definition fatals :: "life_event list \<Rightarrow> fatal set" where
  "fatals es = {f. \<exists>p e. Failed p e \<in> set es \<and> fatal_of p e = Some f}"

definition fatal_ok :: "life_event list \<Rightarrow> life \<Rightarrow> bool" where
  "fatal_ok es l \<longleftrightarrow>
     (lf_main l = MainSelect \<longrightarrow> \<not> lf_cancel l \<and> (fatals es \<noteq> {} \<longrightarrow> lf_fatal l \<noteq> None))
   \<and> set_option (lf_fatal l) \<subseteq> fatals es \<and> set_option (main_error (lf_main l)) \<subseteq> fatals es
   \<and> (lf_main l \<noteq> MainSelect \<and> main_error (lf_main l) = None \<longrightarrow> Signal \<in> set es)"

lemma fatals_snoc:
  "fatals (es @ [e]) = fatals es \<union> (case e of Failed p err \<Rightarrow> set_option (fatal_of p err) | _ \<Rightarrow> {})"
  by (auto simp: fatals_def split: life_event.splits)

lemma fatal_ok_step:
  assumes "fatal_ok es l" and "life_step cfg ep e l l'"
  shows "fatal_ok (es @ [e]) l'"
  using assms(2)
proof cases
  case (failed p err)
  with assms(1) show ?thesis by (cases "fatal_of p err") (auto simp: fatal_ok_def fatals_snoc post_fatal_def)
qed (use assms(1) in \<open>auto simp: fatal_ok_def fatals_snoc leave_select_def cancel_all_def\<close>)

lemma fatal_ok_start: "fatal_ok [] (life_start ep)"
  by (simp add: fatal_ok_def life_start_def fatals_def)

lemma fatal_ok_run: "life_run cfg ep (life_start ep) es l \<Longrightarrow> fatal_ok es l"
  by (induction rule: life_run.induct) (auto intro: fatal_ok_step fatal_ok_start)

section \<open>Lemmas: the endpoint ends\<close>

fun status_left :: "status \<Rightarrow> nat" where
  "status_left PStarting = 2" | "status_left PRunning = 1" | "status_left PEnded = 0"

fun main_left :: "main_at \<Rightarrow> nat" where
  "main_left MainSelect = 3" | "main_left (MainDraining f) = 2" | "main_left (MainWait f) = 1" | "main_left (MainExited f) = 0"

definition life_left :: "Config \<Rightarrow> ('b, 's) endpoint \<Rightarrow> life \<Rightarrow> nat" where
  "life_left cfg ep l = (\<Sum>p \<in> set (run_parts cfg ep). status_left (lf_at l p)) + main_left (lf_main l)"

lemma status_left_update:
  assumes "p \<in> set (run_parts cfg ep)" and "status_left st < status_left (lf_at l p)"
  shows "(\<Sum>q \<in> set (run_parts cfg ep). status_left (((lf_at l)(p := st)) q)) < (\<Sum>q \<in> set (run_parts cfg ep). status_left (lf_at l q))"
  using assms by (intro sum_strict_mono_ex1) auto

lemma life_left_step:
  assumes "life_step cfg ep e l l'"
  shows "if e = Work then life_left cfg ep l' = life_left cfg ep l else life_left cfg ep l' < life_left cfg ep l"
  using assms
proof cases
  case (up p)
  with status_left_update [of p cfg ep PRunning l] show ?thesis by (simp add: life_left_def part_up_def)
next
  case (failed p err)
  with status_left_update [of p cfg ep PEnded l] show ?thesis by (simp add: life_left_def)
next
  case off
  with status_left_update [of BeaconPart cfg ep PEnded l] show ?thesis by (simp add: life_left_def)
next
  case (died p)
  with status_left_update [of p cfg ep PEnded l] show ?thesis by (simp add: life_left_def part_down_def)
next
  case (down p)
  with status_left_update [of p cfg ep PEnded l] show ?thesis by (simp add: life_left_def part_down_def)
qed (auto simp: life_left_def leave_select_def cancel_all_def)

lemma life_left_run: "life_run cfg ep l0 es l \<Longrightarrow> length (filter (\<lambda>e. e \<noteq> Work) es) + life_left cfg ep l \<le> life_left cfg ep l0"
proof (induction rule: life_run.induct)
  case (step es l e l')
  with life_left_step [OF step.hyps(2)] show ?case by (auto split: if_splits)
qed simp

lemma life_left_start: "life_left cfg ep (life_start ep) \<le> 2 * length (run_parts cfg ep) + 3"
  using card_length [of "run_parts cfg ep"] by (simp add: life_left_def life_start_def)

lemma part_starts_some: "p \<in> set (run_parts cfg ep) \<Longrightarrow> \<exists>r. part_starts (ep :: ('b, ('b, 'l, 'z) world_scheme) endpoint) p r"
proof (cases p)
  case NackPart
  have "\<exists>q. Server_Run (\<lambda>_ _. None) (ep_server ep) t s = Inr q" for t and s :: "('b, 'l, 'z) world_scheme"
    by (simp add: Server_Run_def)
  with NackPart show ?thesis by (blast intro: nack_up)
next
  case TeePart
  assume "p \<in> set (run_parts cfg ep)"
  with TeePart obtain a port where "ep_tee ep = Some (a, port)" by (auto simp: run_parts_def split: if_splits)
  with TeePart show ?thesis by (blast intro: tee)
qed (blast intro: ingress other)+

lemma life_not_stuck:
  assumes "counts_ok cfg ep l" and "lf_main l \<noteq> MainSelect \<or> lf_fatal l \<noteq> None" and "\<forall>f. lf_main l \<noteq> MainExited f"
  shows "\<exists>e l'. life_step cfg ep e l l' \<and> e \<noteq> Work \<and> e \<noteq> Signal"
proof (cases "\<exists>f. lf_main l = MainWait f \<and> \<not> all_ended cfg ep l")
  case True
  then obtain p where p: "p \<in> set (run_parts cfg ep)" "lf_at l p \<noteq> PEnded" and c: "lf_cancel l"
    using assms(1) by (auto simp: all_ended_def list_all_iff counts_ok_def)
  show ?thesis
  proof (cases "lf_at l p")
    case PStarting
    obtain r where "part_starts ep p r" using part_starts_some [OF p(1)] by blast
    with p(1) PStarting up [of p cfg ep l] failed [of p cfg ep l] show ?thesis by (cases r) blast+
  next
    case PRunning
    with p(1) c down [of p cfg ep l] show ?thesis by blast
  qed (use p(2) in simp)
next
  case False
  with assms(2,3) took_fatal [of l _ cfg ep] drained [of l _ cfg ep] exit [of l _ cfg ep] show ?thesis
    by (cases "lf_main l") (blast+)
qed

lemma life_run_trans: "life_run cfg ep l es' l' \<Longrightarrow> life_run cfg ep l0 es l \<Longrightarrow> life_run cfg ep l0 (es @ es') l'"
  by (induction rule: life_run.induct) (auto dest: life_run.step simp flip: append_assoc)

lemma life_exits:
  assumes "counts_ok cfg ep l" and "lf_main l \<noteq> MainSelect \<or> lf_fatal l \<noteq> None"
  shows "\<exists>es l' f. life_run cfg ep l es l' \<and> Signal \<notin> set es \<and> lf_main l' = MainExited f"
  using assms
proof (induction "life_left cfg ep l" arbitrary: l rule: less_induct)
  case less
  show ?case
  proof (cases "\<exists>f. lf_main l = MainExited f")
    case True
    then show ?thesis using life_run.start [of cfg ep l] by fastforce
  next
    case False
    then obtain e k where k: "life_step cfg ep e l k" "e \<noteq> Work" "e \<noteq> Signal"
      using life_not_stuck [OF less.prems] by blast
    from k(1,3) less.prems(2) have "lf_main k \<noteq> MainSelect \<or> lf_fatal k \<noteq> None"
      by cases (auto simp: post_fatal_def leave_select_def cancel_all_def)
    with less.hyps [of k] life_left_step [OF k(1)] k(2) counts_ok_step [OF less.prems(1) k(1)]
    obtain es l' f where "life_run cfg ep k es l'" "Signal \<notin> set es" "lf_main l' = MainExited f" by auto
    with life_run_trans [OF _ life_run.step [OF life_run.start k(1)]] k(3) show ?thesis by (intro exI [of _ "[e] @ es"]) fastforce
  qed
qed

section \<open>Properties\<close>

text \<open>
  C18: The endpoint ends, and ends in order.  Once a signal or a fatal error has been taken, or a fatal error is pending, \<^verbatim>\<open>run\<close> needs
  no further signal to return; the lives of its parts are bounded; and when it returns every part it started has ended, nothing counts as
  ready, and its status is an error of a part that failed to start, or success after a signal.
\<close>

theorem endpoint_exits:
  assumes "run_setup F G eng beef R S se cfg = Inr ep" and "life_run cfg ep (life_start ep) es l"
  shows "(lf_main l \<noteq> MainSelect \<or> lf_fatal l \<noteq> None \<longrightarrow>
        (\<exists>es' l' f. life_run cfg ep l es' l' \<and> Signal \<notin> set es' \<and> lf_main l' = MainExited f))
    \<and> length (filter (\<lambda>e. e \<noteq> Work) es) \<le> 2 * length (run_parts cfg ep) + 3
    \<and> (\<forall>f. lf_main l = MainExited f \<longrightarrow> all_ended cfg ep l \<and> readyCount (lf_rec l) = 0
        \<and> (case f of None \<Rightarrow> Signal \<in> set es | Some x \<Rightarrow> x \<in> fatals es))"
proof (intro conjI allI impI)
  have c: "counts_ok cfg ep l" by (rule counts_ok_run [OF assms(2) counts_ok_start [OF assms(1)]])
  then show "lf_main l \<noteq> MainSelect \<or> lf_fatal l \<noteq> None \<Longrightarrow>
      \<exists>es' l' f. life_run cfg ep l es' l' \<and> Signal \<notin> set es' \<and> lf_main l' = MainExited f" by (rule life_exits)
  show "length (filter (\<lambda>e. e \<noteq> Work) es) \<le> 2 * length (run_parts cfg ep) + 3"
    using life_left_run [OF assms(2)] life_left_start [of cfg ep] by simp
  fix f assume x: "lf_main l = MainExited f"
  with c show "all_ended cfg ep l" by (simp add: counts_ok_def)
  with c show "readyCount (lf_rec l) = 0" by (simp add: counts_ok_def all_ended_none)
  show "case f of None \<Rightarrow> Signal \<in> set es | Some x \<Rightarrow> x \<in> fatals es"
    using fatal_ok_run [OF assms(2)] x by (auto simp: fatal_ok_def split: option.splits)
qed

text \<open>
  C13: A feed that cannot start takes the process down.  When an ingress worker cannot open its socket or join its groups, or the tee cannot
  bind, the process exits, with no signal needed, with the error of a feed that failed, so that a supervisor restarts it.
\<close>

theorem feed_failure_fatal:
  assumes "run_setup F G eng beef R S se cfg = Inr ep" and "life_run cfg ep (life_start ep) es l"
    and "Failed p e \<in> set es" and "feeds p" and "Signal \<notin> set es"
  shows "\<exists>es' l' f. life_run cfg ep l es' l' \<and> Signal \<notin> set es' \<and> lf_main l' = MainExited (Some f) \<and> f \<in> fatals (es @ es')"
proof -
  have "\<exists>f. fatal_of p e = Some f" using assms(4) by (cases p) auto
  with assms(3) have "fatals es \<noteq> {}" by (auto simp: fatals_def)
  with fatal_ok_run [OF assms(2)] have "lf_main l \<noteq> MainSelect \<or> lf_fatal l \<noteq> None" by (auto simp: fatal_ok_def)
  from life_exits [OF counts_ok_run [OF assms(2) counts_ok_start [OF assms(1)]] this] obtain es' l' f where
    x: "life_run cfg ep l es' l'" "Signal \<notin> set es'" "lf_main l' = MainExited f" by blast
  with fatal_ok_run [OF life_run_trans [OF x(1) assms(2)]] assms(5) show ?thesis
    by (cases f) (auto simp: fatal_ok_def)
qed

text \<open>
  C27: What \<^verbatim>\<open>/readyz\<close> says.  It answers 503 \<^verbatim>\<open>draining\<close> from the moment \<^verbatim>\<open>run\<close> leaves its wait if a drain is
  configured, and otherwise 200 exactly when as many parts run, of the ingress workers, the tee and the NACK server, as there are ingress
  workers.  So a tee-only endpoint with more than two ingress workers configured never becomes ready.
\<close>

theorem readyz_exact:
  assumes "run_setup F G eng beef R S se cfg = Inr ep" and "life_run cfg ep (life_start ep) es l" and "ep_workers ep \<noteq> []"
  shows "(rz_status (handleReadyz (lf_rec l)) = ''draining'' \<longleftrightarrow> 0 < DrainTimeout cfg \<and> lf_main l \<noteq> MainSelect)
    \<and> (rz_code (handleReadyz (lf_rec l)) = 200 \<longleftrightarrow>
        \<not> (0 < DrainTimeout cfg \<and> lf_main l \<noteq> MainSelect) \<and> length (ep_workers ep) \<le> card (running cfg ep l))
    \<and> (\<not> ep_joining ep \<and> 2 < length (ep_workers ep) \<longrightarrow> rz_code (handleReadyz (lf_rec l)) = 503)"
proof -
  have c: "counts_ok cfg ep l" by (rule counts_ok_run [OF assms(2) counts_ok_start [OF assms(1)]])
  have "running cfg ep l \<subseteq> {NackPart, TeePart}" if "\<not> ep_joining ep"
    using that by (auto simp: running_def run_parts_def counted_def split: if_splits)
  then have "card (running cfg ep l) \<le> 2" if "\<not> ep_joining ep"
    using that card_mono [of "{NackPart, TeePart}" "running cfg ep l"] by simp
  with c assms(3) show ?thesis by (auto simp: counts_ok_def handleReadyz_def Let_def)
qed

text \<open>
  C26: Readiness does not mean that the endpoint works.  With one ingress worker that can join its groups, the process can be in a state where
  it waits for a signal, has no fatal error pending and answers \<^verbatim>\<open>/readyz\<close> with 200, though its only ingress worker has died (a read
  that fails with \<^verbatim>\<open>EBADF\<close> or \<^verbatim>\<open>EINVAL\<close> ends the worker without an error), and likewise though its NACK server never
  got its port.
\<close>

theorem readiness_gaps:
  assumes "run_setup F G eng beef R S se cfg = Inr ep" and "ep_joining ep" and "length (ep_workers ep) = 1"
    and "part_starts ep (IngressPart 0) None"
  shows "(\<exists>es l. life_run cfg ep (life_start ep) es l \<and> lf_at l (IngressPart 0) = PEnded \<and> lf_main l = MainSelect \<and> lf_fatal l = None
      \<and> rz_code (handleReadyz (lf_rec l)) = 200)
    \<and> (\<exists>es l. life_run cfg ep (life_start ep) es l \<and> lf_at l NackPart = PEnded \<and> lf_main l = MainSelect \<and> lf_fatal l = None
      \<and> rz_code (handleReadyz (lf_rec l)) = 200)"
proof -
  let ?l0 = "life_start ep" and ?I = "IngressPart 0"
  have c0: "readyCount (lf_rec ?l0) = 0" "numWorkers (lf_rec ?l0) = 1" "\<not> draining (lf_rec ?l0)"
    using counts_ok_start [OF assms(1)] assms(3) by (auto simp: counts_ok_def running_def life_start_def)
  have parts: "?I \<in> set (run_parts cfg ep)" "NackPart \<in> set (run_parts cfg ep)"
    using assms(2,3) by (auto simp: run_parts_def)
  have nack: "part_starts ep NackPart None" "part_starts ep NackPart (Some (Errorf ''server: listen: in use''))"
    by (rule nack_up [of "\<lambda>_ _. None"] nack_down [of "\<lambda>_ _. Some ''in use''"]; simp add: Server_Run_def)+
  have at: "lf_at ?l0 ?I = PStarting" "lf_at (part_up ?I ?l0) ?I = PRunning" "lf_at (part_down ?I (part_up ?I ?l0)) NackPart = PStarting"
    "lf_at (part_up ?I ?l0) NackPart = PStarting" "feeds ?I"
    by (simp_all add: life_start_def part_up_def part_down_def)
  note st = up [OF parts(1) at(1) assms(4)] died [OF parts(1) at(5) at(2)] up [OF parts(2) at(3) nack(1)]
    failed [OF parts(2) at(4) nack(2), unfolded fatal_of.simps]
  show ?thesis
  proof (intro conjI exI)
    show "life_run cfg ep ?l0 ((([] @ [Up ?I]) @ [Died ?I]) @ [Up NackPart]) (part_up NackPart (part_down ?I (part_up ?I ?l0)))"
      by (rule life_run.step [OF life_run.step [OF life_run.step [OF life_run.start st(1)] st(2)] st(3)])
    show "life_run cfg ep ?l0 (([] @ [Up ?I]) @ [Failed NackPart (Errorf ''server: listen: in use'')])
       (post_fatal None ((part_up ?I ?l0)\<lparr>lf_at := (lf_at (part_up ?I ?l0))(NackPart := PEnded)\<rparr>))"
      by (rule life_run.step [OF life_run.step [OF life_run.start st(1)] st(4)])
  qed (use c0 in \<open>simp_all add: handleReadyz_def Let_def counted_def post_fatal_def life_start_def part_up_def part_down_def
      rec_WorkerReady_def rec_WorkerDone_def\<close>)
qed

section \<open>Concrete instances\<close>

text \<open>The endpoint of theory \<open>Endpoint_Main\<close>: one ingress worker, which can come up and can fail.\<close>

lemma ex_life_fields: "MCJoinEnabled (ex_ssm_config pubs)" "NumWorkers (ex_ssm_config pubs) = 1"
  by (simp_all add: ex_ssm_config_def flag_defaults_def repair_defaults_def serve_defaults_def RepairConfig.defs ServeConfig.defs
      Config.defs ex_load_env_def envStr_def envInt_def env_parsed_def envBool_def envDuration_def control_group_names)

lemma one_part: "length (Partition groups 1) = 1"
  using partition_deals [of groups 1] by (auto simp: min_def max_def split: if_splits)

lemma ex_life:
  obtains ep where "ex_run_setup [] = Inr ep" and "ep_joining ep" and "length (ep_workers ep) = 1"
    and "part_starts ep (IngressPart 0) None" and "part_starts ep (IngressPart 0) (Some (Errorf ''ingress: open socket''))"
proof -
  obtain ep where ep: "ex_run_setup [] = Inr ep" using ex_setup_ok by blast
  from ep obtain fb nackIP gs where parts: "wired_parts ref_frame_pkg ref_group_addr ex_engine (\<lambda>_. 0) ex_resolver ref_scopes ex_setup
      (ex_ssm_config []) ep fb nackIP gs"
    unfolding ex_run_setup_def by (rule run_setup_parts)
  then have ws: "ep_workers ep = build_workers (ex_ssm_config []) fb (Some (MCIface (ex_ssm_config [])))
      (buildGroups ref_group_addr ex_engine (ex_ssm_config [])) gs"
    by (simp add: wired_parts_def ex_life_fields)
  have len: "length (ep_workers ep) = 1" by (simp add: ws build_workers_def ex_life_fields one_part)
  then have w: "ep_workers ep ! 0 \<in> set (ep_workers ep)" by (simp add: nth_mem)
  note wp = worker_parts [OF w [unfolded ws], folded ws]
  have ok: "fst (Worker_Run Linux (\<lambda>_ _. None) (\<lambda>_ _. None) id (ep_workers ep ! 0) s) = None" for s :: "((bytes, bytes) amap, nat) world"
    using wp(4,5) ex_groups_ok
    by (auto simp: Worker_Run_def openRawSocket_def sys_def coBindOpts_def disableMulticastAll_def joinAll_def Let_def
        join_groups_first list_all_iff split: prod.splits option.splits)
  have bad: "fst (Worker_Run Linux (\<lambda>_ _. Some ''none'') (\<lambda>_ _. None) id (ep_workers ep ! 0) s) = Some (Errorf ''ingress: open socket'')"
    for s :: "((bytes, bytes) amap, nat) world"
    using wp(5) by (simp add: Worker_Run_def openRawSocket_def sys_def)
  have "ep_joining ep"
    using ep by (auto simp: ex_run_setup_def run_setup_def then_ok_Inr Let_def ex_life_fields split: if_splits prod.splits)
  with that ep len ingress [OF ok] ingress [OF bad] show ?thesis by blast
qed

theorem endpoint_exits_witness:
  "\<exists>ep es l f. ex_run_setup [] = Inr ep \<and> life_run (ex_ssm_config []) ep (leave_select (ex_ssm_config []) None (life_start ep)) es l
     \<and> Signal \<notin> set es \<and> lf_main l = MainExited f"
proof -
  obtain ep where ep: "ex_run_setup [] = Inr ep" by (rule ex_life)
  have "life_run (ex_ssm_config []) ep (life_start ep) ([] @ [Signal]) (leave_select (ex_ssm_config []) None (life_start ep))"
    by (rule life_run.step [OF life_run.start signal]) (simp add: life_start_def)
  from endpoint_exits [OF ep [unfolded ex_run_setup_def] this] ep show ?thesis
    by (auto simp: leave_select_def cancel_all_def)
qed

theorem feed_failure_fatal_witness:
  "\<exists>ep es l f. ex_run_setup [] = Inr ep \<and> life_run (ex_ssm_config []) ep (life_start ep) es l \<and> Signal \<notin> set es
     \<and> lf_main l = MainExited (Some f)"
proof -
  obtain ep where ep: "ex_run_setup [] = Inr ep" "ep_joining ep" "length (ep_workers ep) = 1"
    "part_starts ep (IngressPart 0) (Some (Errorf ''ingress: open socket''))" by (rule ex_life)
  have "IngressPart 0 \<in> set (run_parts (ex_ssm_config []) ep)" "lf_at (life_start ep) (IngressPart 0) = PStarting"
    using ep(2,3) by (auto simp: run_parts_def life_start_def)
  note r = life_run.step [OF life_run.start failed [OF this ep(4)]]
  from feed_failure_fatal [OF ep(1) [unfolded ex_run_setup_def] r, of "IngressPart 0" "Errorf ''ingress: open socket''"]
  obtain es' l' f where "life_run (ex_ssm_config []) ep (post_fatal (fatal_of (IngressPart 0) (Errorf ''ingress: open socket''))
      ((life_start ep)\<lparr>lf_at := (lf_at (life_start ep))(IngressPart 0 := PEnded)\<rparr>)) es' l'"
    "Signal \<notin> set es'" "lf_main l' = MainExited (Some f)" by auto
  then show ?thesis
    using ep(1) life_run_trans [OF _ r]
    by (intro exI [of _ ep] exI [of _ "([] @ [Failed (IngressPart 0) (Errorf ''ingress: open socket'')]) @ es'"] exI [of _ l'] exI [of _ f])
      (simp del: append_Nil)
qed

theorem readyz_exact_witness:
  "\<exists>ep. ex_run_setup [] = Inr ep \<and> rz_code (handleReadyz (lf_rec (life_start ep))) \<noteq> 200"
proof -
  obtain ep where ep: "ex_run_setup [] = Inr ep" "length (ep_workers ep) = 1" by (rule ex_life)
  have "running (ex_ssm_config []) ep (life_start ep) = {}" by (simp add: running_def life_start_def)
  moreover have "ep_workers ep \<noteq> []" using ep(2) by auto
  ultimately show ?thesis using readyz_exact [OF ep(1) [unfolded ex_run_setup_def] life_run.start] ep by auto
qed

theorem readiness_gaps_witness:
  "\<exists>ep es l. ex_run_setup [] = Inr ep \<and> life_run (ex_ssm_config []) ep (life_start ep) es l \<and> lf_at l NackPart = PEnded
     \<and> rz_code (handleReadyz (lf_rec l)) = 200"
proof -
  obtain ep where ep: "ex_run_setup [] = Inr ep" "ep_joining ep" "length (ep_workers ep) = 1" "part_starts ep (IngressPart 0) None"
    by (rule ex_life)
  from readiness_gaps [OF ep(1) [unfolded ex_run_setup_def] ep(2-4)] ep(1) show ?thesis by blast
qed

end
