(* ===== verification/Egress_Sockets.thy ===== *)
theory Egress_Sockets
  imports Retransmit
begin

text \<open>
  How the retransmitter opens its egress sockets: \<^verbatim>\<open>openEgressSocket\<close> of \<^verbatim>\<open>src/retransmit/retransmit.go\<close> as the calls it
  makes, with the outcome of each call decided by the environment, and the sockets \<^verbatim>\<open>Open\<close> of theory \<open>Retransmit\<close> then has.
\<close>

section \<open>Calls\<close>

text \<open>\<open>AsUDPConn\<close> is the type assertion; \<open>ConnFile\<close> duplicates the descriptor, and the duplicate is closed by a deferred call.\<close>

datatype egress_call = ListenPacket | AsUDPConn | ConnFile | FileClose | ConnClose | SetMulticastIF int | SetLoop int

type_synonym egress_env = "nat \<Rightarrow> egress_call \<Rightarrow> string option"

definition call :: "egress_env \<Rightarrow> egress_call \<Rightarrow> egress_call list \<Rightarrow> string option \<times> egress_call list" where
  "call env c t = (env (length t) c, t @ [c])"

definition openEgressSocket :: "egress_env \<Rightarrow> int \<Rightarrow> bool \<Rightarrow> go_error option \<times> egress_call list" where
  "openEgressSocket env index loop =
    (let (e, t) = call env ListenPacket [] in
     if e \<noteq> None then (Some (Errorf ''listen''), t)
     else let (e, t) = call env AsUDPConn t in
     if e \<noteq> None then (Some (Errorf ''not a UDP connection''), snd (call env ConnClose t))
     else let (e, t) = call env ConnFile t in
     if e \<noteq> None then (Some (Errorf ''get file descriptor''), snd (call env ConnClose t))
     else let (e, t) = call env (SetMulticastIF index) t in
     if e \<noteq> None then (Some (Errorf ''set multicast interface''), snd (call env FileClose (snd (call env ConnClose t))))
     else if \<not> loop then (None, snd (call env FileClose t))
     else let (e, t) = call env (SetLoop 1) t in
     if e \<noteq> None then (Some (Errorf ''set multicast loop''), snd (call env FileClose (snd (call env ConnClose t))))
     else (None, snd (call env FileClose t)))"

text \<open>What \<^verbatim>\<open>Open\<close> sees of it, interface by interface: \<open>index\<close> is the kernel's index of an interface.\<close>

definition egress_outcome :: "(string \<Rightarrow> egress_env) \<Rightarrow> (string \<Rightarrow> int) \<Rightarrow> 'b Retransmitter \<Rightarrow> string \<Rightarrow> go_error option" where
  "egress_outcome envs index r name = fst (openEgressSocket (envs name) (index name) (rt_multicastLoop r))"

section \<open>Lemmas\<close>

text \<open>Connections and duplicated descriptors a trace leaves open.\<close>

fun left_open :: "egress_env \<Rightarrow> nat \<Rightarrow> egress_call list \<Rightarrow> int \<times> int" where
  "left_open env n [] = (0, 0)"
| "left_open env n (c # cs) =
    (let (conns, files) = left_open env (Suc n) cs in
     (conns + (if c = ListenPacket \<and> env n c = None then 1 else if c = ConnClose then -1 else 0),
      files + (if c = ConnFile \<and> env n c = None then 1 else if c = FileClose then -1 else 0)))"

definition egress_calls :: "int \<Rightarrow> bool \<Rightarrow> egress_call list" where
  "egress_calls index loop = [ListenPacket, AsUDPConn, ConnFile, SetMulticastIF index] @ (if loop then [SetLoop 1] else [])"

definition granted :: "egress_env \<Rightarrow> egress_call list \<Rightarrow> bool" where
  "granted env t \<longleftrightarrow> (\<forall>i < length t. env i (t ! i) = None)"

lemma openEgressSocket_up:
  assumes "openEgressSocket env index loop = (None, t)"
  shows "t = egress_calls index loop @ [FileClose] \<and> granted env (egress_calls index loop) \<and> left_open env 0 t = (1, 0)"
  using assms
  by (auto simp: openEgressSocket_def call_def egress_calls_def granted_def Let_def less_Suc_eq split: if_splits)

lemma openEgressSocket_down:
  assumes "openEgressSocket env index loop = (Some e, t)"
  shows "left_open env 0 t = (0, 0)"
  using assms by (auto simp: openEgressSocket_def call_def Let_def split: if_splits)

lemma open_egress_sockets:
  "open_egress opens names r = (None, r') \<Longrightarrow>
   set (map fst (rt_sockets r')) = set (map fst (rt_sockets r)) \<union> set names \<and> (\<forall>n \<in> set names. opens n = None)"
proof (induction names arbitrary: r)
  case (Cons n names)
  then have "opens n = None" "open_egress opens names (r\<lparr>rt_sockets := amap_put n () (rt_sockets r)\<rparr>) = (None, r')"
    by (auto split: option.splits)
  moreover have "set (map fst (amap_put n () m)) = insert n (set (map fst m))" for m :: "(string, unit) amap"
    by (induction m) (auto simp: amap_put_def)
  ultimately show ?case using Cons.IH by auto
qed simp

lemma opened_sockets:
  assumes "Retransmitter_Open (egress_outcome envs index r) openUC r = (None, r')" and "rt_sockets r = []"
  shows "set (map fst (rt_sockets r')) = set (rt_ifaces r)"
    and "n \<in> set (rt_ifaces r) \<Longrightarrow> fst (openEgressSocket (envs n) (index n) (rt_multicastLoop r)) = None"
proof -
  obtain r1 where "open_egress (egress_outcome envs index r) (rt_ifaces r) r = (None, r1)" "rt_sockets r' = rt_sockets r1"
    using assms(1) by (auto simp: Retransmitter_Open_def split: option.splits prod.splits)
  with open_egress_sockets [OF this(1)] assms(2) show "set (map fst (rt_sockets r')) = set (rt_ifaces r)"
    "n \<in> set (rt_ifaces r) \<Longrightarrow> fst (openEgressSocket (envs n) (index n) (rt_multicastLoop r)) = None"
    by (auto simp: egress_outcome_def)
qed

section \<open>Properties\<close>

text \<open>
  C28: A repair leaves by a configured interface, and only by a socket that is pinned to it.  After a successful \<^verbatim>\<open>Open\<close>, every
  datagram of \<^verbatim>\<open>Retransmit\<close> goes out of the socket of a configured egress interface on which \<^verbatim>\<open>IPV6_MULTICAST_IF\<close> was set to
  that interface, and the multicast loop exactly if configured; that socket is the one thing left open, the duplicated descriptor is closed.  A
  socket that cannot be set up is not left open either.
\<close>

theorem egress_pinned:
  assumes "Retransmitter_Open (egress_outcome envs index r) openUC r = (None, r')" and "rt_sockets r = []"
    and "Retransmit F ga r' raw txID s = (e, s')" and "sends s s' xs" and "x \<in> set xs"
  shows "(\<exists>name t. name \<in> set (rt_ifaces r) \<and> via x = EgressSock name
      \<and> openEgressSocket (envs name) (index name) (rt_multicastLoop r) = (None, t)
      \<and> t = egress_calls (index name) (rt_multicastLoop r) @ [FileClose]
      \<and> granted (envs name) (egress_calls (index name) (rt_multicastLoop r)) \<and> left_open (envs name) 0 t = (1, 0))
    \<and> (\<forall>env i b err t. openEgressSocket env i b = (Some err, t) \<longrightarrow> left_open env 0 t = (0, 0))"
proof (intro conjI allI impI)
  have "\<exists>names grp. xs = mc_copies names raw grp \<and> set names \<subseteq> set (map fst (rt_sockets r'))"
  proof -
    have none: "\<exists>names grp. [] = mc_copies names raw grp \<and> set names \<subseteq> set (map fst (rt_sockets r'))"
      by (rule exI [of _ "[]"]) (simp add: mc_copies_def)
    show ?thesis
      using Retransmit_sends [OF assms(3)] sends_unique [OF assms(4)] none
      by (cases e) (auto split: go_error.splits, (metis set_take_subset set_map subset_refl)+)
  qed
  then have "\<exists>name. name \<in> set (map fst (rt_sockets r')) \<and> via x = EgressSock name"
    using assms(5) by (fastforce simp: mc_copies_def)
  then obtain name where n: "name \<in> set (map fst (rt_sockets r'))" "via x = EgressSock name" by blast
  with opened_sockets [OF assms(1,2)] have "name \<in> set (rt_ifaces r)"
    "fst (openEgressSocket (envs name) (index name) (rt_multicastLoop r)) = None" by auto
  moreover obtain t where "openEgressSocket (envs name) (index name) (rt_multicastLoop r) = (None, t)"
    using calculation(2) by (metis prod.collapse)
  ultimately show "\<exists>name t. name \<in> set (rt_ifaces r) \<and> via x = EgressSock name
      \<and> openEgressSocket (envs name) (index name) (rt_multicastLoop r) = (None, t)
      \<and> t = egress_calls (index name) (rt_multicastLoop r) @ [FileClose]
      \<and> granted (envs name) (egress_calls (index name) (rt_multicastLoop r)) \<and> left_open (envs name) 0 t = (1, 0)"
    using n(2) openEgressSocket_up by (intro exI conjI) auto
qed (rule openEgressSocket_down)

section \<open>Concrete instances\<close>

definition ex_egress :: "(bytes, bytes) amap Retransmitter" where
  "ex_egress = new_Retransmitter ref_engine [''eth0''] 9001 60 None"

theorem egress_pinned_witness:
  "\<exists>t. openEgressSocket (\<lambda>_ _. None) 7 False = (None, t) \<and> left_open (\<lambda>_ _. None) 0 t = (1, 0) \<and> SetMulticastIF 7 \<in> set t"
proof -
  let ?r' = "ex_egress\<lparr>rt_sockets := [(''eth0'', ())], rt_unicastConn := True\<rparr>"
  let ?run = "Retransmit ref_frame_pkg ref_group_addr ?r' (ex_frame 1 2 2) [0] ex_io"
  have op: "Retransmitter_Open (egress_outcome (\<lambda>_ _ _. None) (\<lambda>_. 7) ex_egress) None ex_egress = (None, ?r')"
    by (simp add: Retransmitter_Open_def ex_egress_def new_Retransmitter_def egress_outcome_def openEgressSocket_def call_def amap_put_def)
  have "net_up ex_io" by (simp add: net_up_def ex_io_def ex_net_def)
  moreover have "rt_dedup ?r' = None" by (simp add: ex_egress_def new_Retransmitter_def)
  moreover have "\<exists>grp. targetGroup ref_frame_pkg ref_group_addr ?r' (ex_frame 1 2 2) [0] = Inr grp"
  proof -
    have "\<not> isl (targetGroup ref_frame_pkg ref_group_addr ?r' (ex_frame 1 2 2) [0])" by code_simp
    then show ?thesis by (metis sum.collapse(2))
  qed
  ultimately obtain s' grp where "?run = (None, s')" "sends ex_io s' (mc_copies (map fst (rt_sockets ?r')) (ex_frame 1 2 2) grp)"
    using Retransmit_up by blast
  from egress_pinned [OF op _ this, of "\<lparr>via = EgressSock ''eth0'', dst = grp, payload = ex_frame 1 2 2\<rparr>"] show ?thesis
    by (auto simp: mc_copies_def ex_egress_def new_Retransmitter_def egress_calls_def)
qed

end
