(* ===== verification/Spec2Isabelle.thy ===== *)
theory Spec2Isabelle
  imports Endpoint_Lifecycle Egress_Sockets
begin

text \<open>
  A model of the retry endpoint (\<^verbatim>\<open>github.com/lightwebinc/retry-endpoint\<close>, sources under \<^verbatim>\<open>src/\<close>) and proofs about it.

  \<^bold>\<open>The program.\<close>  The endpoint listens to the multicast groups of a sharded fabric and keeps recent frames in a cache, keyed by
  the HashKey and SeqNum in their headers.  Listeners that miss a frame send it a 64-byte NACK; it answers by multicasting
  the frame again, by sending it back to the requester, or with a 16-byte ACK, MISS or THROTTLED datagram.  On a miss it
  may ask other endpoints on the requester's behalf.  A beacon advertises its address and abilities.  \<^verbatim>\<open>main.go\<close> loads the
  configuration and wires the parts together: the ingress workers and the NACK server meet in one cache store; server
  and proxy client share one retransmitter; everything counts into one recorder.

  \<^bold>\<open>Theories and what they model.\<close>
  \<^item> \<open>Go_Prelude\<close>, \<open>Net_Addr\<close>, \<open>Go_Strings\<close>: Go's integers, slices, errors and maps (association lists), addresses with their textual
    forms, and the parsing functions of the standard library that the sources call.
  \<^item> \<open>Shard_Common\<close>: what the sources use of the external module \<^verbatim>\<open>shard-common\<close>, as parameters with named hypotheses
    (\<open>frame_offsets\<close>, \<open>frame_versions\<close>, \<open>tee_layout\<close>) and one concrete instance of them.
  \<^item> \<open>Effects\<close>: storage, wire and recorder, the state that all request handling passes along.  \<open>Metrics_Recorder\<close>, \<open>Metrics_Setup\<close>:
    \<^verbatim>\<open>metrics/metrics.go\<close>, its counters and readiness, and how it is made, served and shut down.
  \<^item> \<open>Event_Log\<close>, \<open>Window_Limiter\<close>, \<open>Rate_Limit\<close>: \<^verbatim>\<open>ratelimit/ratelimit.go\<close>, from the event-log buffers up to the four tiers.
  \<^item> \<open>Cache_Store\<close>: \<^verbatim>\<open>cache/cache.go\<close> over an arbitrary backend.
  \<^item> \<open>Retransmit\<close>, \<open>Egress_Sockets\<close>: \<^verbatim>\<open>retransmit/retransmit.go\<close>, the second its sockets as a trace of system calls.
    \<open>Nack_Proxy\<close>: \<^verbatim>\<open>proxy/proxy.go\<close>.
  \<^item> \<open>Nack_Server\<close>, \<open>Nack_Properties\<close>, \<open>Server_Loop\<close>: \<^verbatim>\<open>server/server.go\<close>, first the handling of one request, then \<^verbatim>\<open>Run\<close> with
    its read loop, its channel and its pool of workers as a step relation.
  \<^item> \<open>Ingress_Worker\<close>, \<open>Ingress_Sockets\<close>, \<open>Ingress_Pipeline\<close>: package \<^verbatim>\<open>ingress\<close>: dispatch and caching of the seven frame classes,
    sockets and joins as a trace of system calls, and the receiver and its processors as a step relation over shared slots.
  \<^item> \<open>Beacon_Sender\<close>: \<^verbatim>\<open>beacon/beacon.go\<close>.  \<open>Control_Group\<close>, \<open>Config_Load\<close>: package \<^verbatim>\<open>config\<close>.
  \<^item> \<open>Endpoint_Main\<close>, \<open>Endpoint_Lifecycle\<close>: \<^verbatim>\<open>main.go\<close>, from a loaded configuration to the wired endpoint, and from there to the exit
    status, with the goroutines of \<^verbatim>\<open>run\<close> as the parts of a step relation.

  Definitions keep the names of the Go functions.  A method becomes a function of its receiver; a handler that has effects takes
  the state last and returns it.  A run-time panic is \<open>None\<close>; an error return is \<open>Inl\<close> or a \<open>go_error option\<close>.  Time,
  the outcomes of system calls, of writes and of name resolution, and the datagrams that arrive are arguments.  Three step
  relations describe concurrent code: the receive pipeline, the worker pool of the server and the life of the process.  Their
  steps carry events, and statements about what happened are statements about the list of events of a run.  A worker of the
  pool takes one step per stage of \<^verbatim>\<open>processNACK\<close> (one per rate-limit tier, each of which the code guards by a lock, and one for the
  lookup and its consequences), and other goroutines may change storage, wire, recorder and proxy queue between any two.

  \<^bold>\<open>Interfaces.\<close>  Where the Go code calls through an interface there is a locale with the laws the caller relies on, and an interpretation
  that discharges them for the code that is wired in: \<open>frame_cache\<close> and \<open>deduper\<close> (the store), \<open>retransmit_contract\<close> (the
  retransmitter), \<open>proxy_enqueuer\<close> (the proxy client) and \<open>nack_deps\<close>, which joins the last two for the server; \<open>window_log\<close> and
  \<open>key_window\<close> are the contracts inside the rate limiter.

  \<^bold>\<open>What is shown.\<close>
  \<^item> Server: an ACK never claims a send that did not happen; a cached frame that is asked for is repaired; replies are
    bounded; proxied requests travel one hop.  For every interleaving of the pool no input makes the server panic, the tiers keep
    their bounds per window, requests are neither lost nor duplicated between socket and worker, and after a cancellation the
    server stops; with one worker it serves exactly the requests taken, in order.
  \<^item> Rate limiter: the limiter with lazy expiry, compaction and sweeping decides exactly as a reference that remembers everything;
    bounds per window and on memory; requests for one flow never use up another's allowance.
  \<^item> Retransmitter and store: outcomes correspond to what was sent, dedup suppresses exactly repeats of the same frame, retrieved
    values were stored under the same key even when stores with disjoint key spaces share one backend; egress sockets are pinned to
    the configured interface and hop limit.
  \<^item> Proxy: recoveries terminate, ask at most the configured upstreams, are counted once and deliver only the frame fetched.
  \<^item> Ingress: exactly stamped, decodable frames are cached, byte for byte; for every interleaving the pipeline has the effect of
    handling the datagrams one at a time, uses each slot in one place, never deadlocks and drains; startup and joins.
  \<^item> Beacon, configuration, wiring: advertisements parse back to what was configured and are true of the server that is running;
    every loaded configuration satisfies the documented ranges; in source-specific mode the own source is never joined.
  \<^item> Process: once a signal or a fatal error has arrived it exits, after all parts have ended; a failing feed is fatal; what \<^verbatim>\<open>/readyz\<close>
    answers, and in which states it is misleading; a recorder has all its instruments or is not made at all.
  \<^item> Across components, in this theory: what ingress captured the server repairs (\<open>capture_to_repair\<close>), and what one endpoint asks
    of another by proxy comes back intact (\<open>cross_domain_roundtrip\<close>).

  \<^bold>\<open>Bounds.\<close>  All loops are structural recursions or have a termination proof.  Two functions carry fuel: the digits of a printed number
  (\<open>digits_in\<close>, enough by \<open>text_digits_enough\<close>) and the items of a duration text (\<open>duration_items\<close>, whose fuel is the length of the
  text, enough by \<open>duration_fuel\<close>).  The read loop of a fetch ends with the datagrams that arrive before its deadline.  A cancelled server
  takes at most 812 + 6 n more steps of its own with n workers (\<open>server_stops\<close>: 100 queued requests of at most eight steps each, and what
  reader and workers hold); a process with n parts takes at most 2 n + 3 steps that are not its parts' work (\<open>endpoint_exits\<close>).

  \<^bold>\<open>Not modelled.\<close>  \<^verbatim>\<open>ci/main.go\<close> is one call into an external pipeline.  Log lines and the set-up of logging and tracing
  have no effect on the rest.  The workers of the proxy client appear only through the recovery of one queued miss, and they are
  not parts of the process in \<open>Endpoint_Lifecycle\<close>, because \<^verbatim>\<open>run\<close> does not wait for them.  Of the
  OpenTelemetry and Prometheus packages and of the HTTP server the model has the calls and their errors, not what is behind
  them.  How long a sleep or a timer lasts is left open.  Modules outside \<^verbatim>\<open>src/\<close> (\<^verbatim>\<open>shard-common\<close>, the cache backends,
  \<^verbatim>\<open>golang.org/x/time/rate\<close>) are parameters.  Rates are rationals, not floating-point numbers, and configuration text is ASCII.
\<close>

section \<open>Lemmas: a proxied request and its answers\<close>

lemma proxied_nack_fields:
  "length (proxied_nack j) = 64" "validateNACK (proxied_nack j) = None" "nack_proxied (proxied_nack j)"
  "Uint64 (go_slice 8 16 (proxied_nack j)) = j_hashKey j" "Uint64 (go_slice 16 24 (proxied_nack j)) = j_seq j"
  "Uint64 (go_slice 24 32 (proxied_nack j)) = j_seq j"
proof -
  have U: "Uint64 (PutUint64 n) = n" "Uint32 (PutUint32 m) = m" for n m
    using Uint64_PutUint64 [of n "[]"] Uint32_PutUint32 [of m "[]"] by simp_all
  have "length (copy_array 32 b) = 32" for b by (simp add: copy_array_def)
  then show "length (proxied_nack j) = 64" "validateNACK (proxied_nack j) = None" "nack_proxied (proxied_nack j)"
    "Uint64 (go_slice 8 16 (proxied_nack j)) = j_hashKey j" "Uint64 (go_slice 16 24 (proxied_nack j)) = j_seq j"
    "Uint64 (go_slice 24 32 (proxied_nack j)) = j_seq j"
    unfolding proxied_nack_append
    by (simp_all add: validateNACK_def nack_proxied_def go_slice_def U NACKSize_def nth_append FlagProxied_def)
qed

lemma response_kind:
  "is_miss (response_bytes msgTypeMISS f n)" "\<not> is_miss (response_bytes msgTypeACK f n)" "\<not> is_frame_return (response_bytes t f n)"
  by (simp_all add: is_miss_def is_frame_return_def frame_HeaderSize_def respSize_def msg_types response_bytes_append nth_append)

lemma read_loop_picks:
  assumes "is_frame_return raw" and "\<not> is_frame_return ack" and "\<not> is_miss ack" and "raw \<in> set ds" and "set ds \<subseteq> {raw, ack}"
  shows "read_loop ds = Some raw"
  using assms(4,5) by (induction ds) (use assms(1-3) in \<open>auto simp: is_miss_def\<close>)

lemma miss_wire:
  assumes "processNACK rp grow F sv ck d (Some a) s = Some (v, s')" and "\<forall>l. v \<noteq> Limited l" and "validateNACK d = None"
    and "Uint64 (go_slice 24 32 d) = Uint64 (go_slice 16 24 d)" and "nack_cached sv d s = Inr None" and "nack_proxied d"
    and "\<not> suppressMISS sv" and "net_up s"
  shows "v = Missed \<and> sends s s' [\<lparr>via = NackSock, dst = a, payload = response_bytes msgTypeMISS 0 0\<rparr>]"
proof -
  obtain ip l where lk: "on_lookup rp F sv (t_Group ck) ip (nack_proxied d) (Uint64 (go_slice 8 16 d)) (Uint64 (go_slice 16 24 d))
      (go_slice 32 64 d) (Some a) ((io_rec rec_NACKRequest s)\<lparr>lim := l\<rparr>) = (v, s')"
    using processNACK_lookup [OF assms(1-4)] by blast
  obtain w where r: "Store_Retrieve (sv_cache sv) (go_slice 8 24 d) (stg s) = (Inr None, w)"
    using assms(5) by (auto simp: nack_cached_def prod_eq_iff)
  let ?t = "io_rec rec_CacheMiss ((io_rec rec_NACKRequest s)\<lparr>lim := l, stg := w\<rparr>)"
  have nw: "nw ?t = nw s" by (simp add: io_rec_def)
  obtain e u where wr: "io_write NackSock (response_bytes msgTypeMISS 0 0) a ?t = (e, u)" by force
  have "e = None" using io_write_up [OF _ wr] assms(8) nw by (simp add: net_up_def)
  with sends_write [OF wr] nw have "sends s u [\<lparr>via = NackSock, dst = a, payload = response_bytes msgTypeMISS 0 0\<rparr>]"
    by (simp add: sends_def)
  moreover have "v = Missed \<and> s' = io_rec (rec_ResponseSent ''miss'') u"
    using lk r assms(6,7) wr \<open>e = None\<close>
    by (simp add: on_lookup_def nack_key [OF assms(3)] on_miss_def Let_def sendResponse_def reply_def io_rec_def split: option.splits)
  ultimately show ?thesis by (simp add: sends_def)
qed

section \<open>Lemmas: capture and repair share a key\<close>

lemma stamped_seq:
  assumes "PutUint64 a @ PutUint64 b = go_slice 8 24 d"
  shows "Uint64 (go_slice 16 24 d) = b"
proof -
  have "go_slice 16 24 d = drop 8 (go_slice 8 24 d)" by (simp add: go_slice_def drop_take)
  also have "\<dots> = PutUint64 b" by (simp flip: assms)
  finally show ?thesis using Uint64_PutUint64 [of b "[]"] by simp
qed

lemma class_ttl_pos: "ok_cache cfg \<Longrightarrow> 0 < class_ttl F (cache_ttls cfg) raw"
  by (simp add: ok_cache_def class_ttl_def fragment_ttl_def cache_ttls_def split: sum.splits)

lemma unicast_conn: "Retransmitter_Open opens openUC r = (None, r') \<Longrightarrow> rt_unicastConn r'"
  by (auto simp: Retransmitter_Open_def split: prod.splits option.splits)

section \<open>Properties across components\<close>



section \<open>Witnesses\<close>


text \<open>The endpoint of \<open>ex_run_setup\<close>, part by part.\<close>

definition ex_ep_addr :: bytes where
  "ex_ep_addr = replicate 15 0 @ [2]"

definition ex_ep_store :: "(bytes, bytes) amap Store" where
  "ex_ep_store = NewStore (map_backend True) (ascii ''bre:frame:'') go_second"

definition ex_ep_retrans :: "(bytes, bytes) amap Retransmitter" where
  "ex_ep_retrans = snd (Retransmitter_Open (\<lambda>_. None) None (SetMulticastLoop False (SetUnicastSource ex_ep_addr
     (SetBEEF (Some (\<lambda>_. 0)) (new_Retransmitter ex_engine [''eth0''] 9001 (60 * go_second) None)))))"

definition ex_ep_server :: "((bytes, bytes) amap, ((bytes, bytes) amap, nat) world) Server" where
  "ex_ep_server = SetRetransmitModes True False (SetBEEFEngine (Some (\<lambda>_. 0)) (SetShardEngine (Some ex_engine) (SetThrottleResponse False
     (SetSuppressMISS False (SetSuppressACK False (SetBindAddr (IP_String ex_ep_addr)
       (server_New 9300 ex_ep_store (retransmitter_iface ref_frame_pkg ref_group_addr ex_ep_retrans) 4 False)))))))"

definition ex_captured :: "(bytes, bytes) amap" where
  "ex_captured = snd (Store_Store ex_ep_store (PutUint64 1 @ PutUint64 2) (ex_frame 1 2 2) (60 * go_second) [])"

definition ex_ep_run :: "(verdict \<times> ((bytes, bytes) amap, nat) world) option" where
  "ex_ep_run = processNACK ex_rp (\<lambda>n. 2 * n) ref_frame_pkg ex_ep_server ex_clock ex_gap (Some ex_src) (ex_world ex_captured)"

lemma ex_ep_fields:
  "EgressIfaces (ex_ssm_config pubs) = [''eth0'']" "EgressPort (ex_ssm_config pubs) = 9001" "DedupWindow (ex_ssm_config pubs) = 60 * go_second"
  "\<not> EgressMulticastLoop (ex_ssm_config pubs)" "NACKWorkers (ex_ssm_config pubs) = 4" "\<not> Debug (ex_ssm_config pubs)"
  "\<not> SuppressACK (ex_ssm_config pubs)" "\<not> SuppressMISS (ex_ssm_config pubs)" "\<not> ThrottleResponse (ex_ssm_config pubs)"
  "BeaconFlagsMulticast (ex_ssm_config pubs)" "\<not> BeaconFlagsUnicast (ex_ssm_config pubs)" "\<not> ProxyEnabled (ex_ssm_config pubs)"
  "CacheOpTimeout (ex_ssm_config pubs) = go_second" "CacheBackend (ex_ssm_config pubs) = ''memory''" "RedisAddr (ex_ssm_config pubs) = []"
  "CacheTTLTx (ex_ssm_config pubs) = 60 * go_second" "CacheTTLBlock (ex_ssm_config pubs) = 10 * go_minute"
  "CacheTTLSubtree (ex_ssm_config pubs) = 5 * go_minute" "CacheTTLAnchor (ex_ssm_config pubs) = 2 * go_minute"
  "CacheTTLBEEF (ex_ssm_config pubs) = 60 * go_second"
  by (simp_all add: ex_ssm_config_def flag_defaults_def repair_defaults_def serve_defaults_def RepairConfig.defs ServeConfig.defs
      Config.defs ex_load_env_def envStr_def envInt_def env_parsed_def envBool_def envDuration_def default_ttls)

lemma ex_ep_run_served: "ex_ep_run \<noteq> None" "fst (the ex_ep_run) = Served"
  by code_simp+

lemma ex_ep_parts:
  assumes "ex_run_setup pubs = Inr ep"
  shows "ep_server ep = ex_ep_server" "ep_retrans ep = ex_ep_retrans"
    and "w \<in> set (ep_workers ep) \<Longrightarrow> w_cache w = ex_ep_store" "w \<in> set (ep_workers ep) \<Longrightarrow> w_ttls w = cache_ttls (ex_ssm_config pubs)"
proof -
  from assms obtain fb ip gs where parts: "wired_parts ref_frame_pkg ref_group_addr ex_engine (\<lambda>_. 0) ex_resolver ref_scopes ex_setup
      (ex_ssm_config pubs) ep fb ip gs"
    unfolding ex_run_setup_def by (rule run_setup_parts)
  have "pickBeaconNACKAddr ''::2'' (Inr []) = Inr ex_ep_addr" by code_simp
  with parts have fb: "fb = map_backend True" and ip: "ip = ex_ep_addr"
    by (simp_all add: wired_parts_def ex_setup_def ex_ssm_fields)
  have store: "frame_store (ex_ssm_config pubs) fb = ex_ep_store" by (simp add: frame_store_def ex_ep_fields fb ex_ep_store_def)
  show rt: "ep_retrans ep = ex_ep_retrans"
    using parts by (simp add: wired_parts_def ex_setup_def ip build_retransmitter_def dedup_backend_def ex_ep_fields ex_ep_retrans_def)
  have px: "ep_proxy ep = None" using parts by (simp add: wired_parts_def build_proxy_def ex_ep_fields)
  show "ep_server ep = ex_ep_server"
    using parts by (simp add: wired_parts_def build_server_def Let_def ex_ep_fields ex_default_fields store rt px ip ex_ep_server_def)
  show "w_cache w = ex_ep_store" "w_ttls w = cache_ttls (ex_ssm_config pubs)" if "w \<in> set (ep_workers ep)"
    using that parts worker_parts(1,2) [of w "ex_ssm_config pubs" fb] by (auto simp: wired_parts_def store)
qed


end
